theory Spec2Isabelle
  imports Main "HOL-Library.AList" "HOL-Library.Char_ord" "HOL-Library.List_Lexorder"
    "HOL-Library.Multiset"
begin

section \<open>Python values used by the script\<close>

text \<open>
  A shallow embedding of \<^verbatim>\<open>data-cdc-gov-metadata.py\<close>.  Python strings are
  \<^typ>\<open>string\<close> (a character of the model is a code point below 256).  A Python \<^verbatim>\<open>dict\<close> is an association list in
  insertion order, written with \<^const>\<open>AList.update\<close> (an existing key keeps its place, a
  new key goes last) and read with \<^const>\<open>map_of\<close>.  Every exception the script can
  raise is a value of \<open>py_error\<close>; a function that can raise returns \<open>py_error + 'a\<close>.
  \<open>OutOfRange\<close> stands for what \<^verbatim>\<open>datetime.utcfromtimestamp\<close> raises on a timestamp
  past the year 9999 (\<^verbatim>\<open>ValueError\<close>, \<^verbatim>\<open>OverflowError\<close> or \<^verbatim>\<open>OSError\<close>, by size);
  \<open>Raised e\<close> is an exception raised inside a function the script calls and does not
  define, \<open>e\<close> its text.
\<close>

datatype py_error = KeyError | ValueError | IndexError | OutOfRange | Raised string

type_synonym pydict = "(string \<times> string) list"

definition getitem :: "('k \<times> 'v) list \<Rightarrow> 'k \<Rightarrow> py_error + 'v" where
  "getitem d k = (case map_of d k of None \<Rightarrow> Inl KeyError | Some v \<Rightarrow> Inr v)"

definition has_key :: "('k \<times> 'v) list \<Rightarrow> 'k \<Rightarrow> bool" where
  "has_key d k = (map_of d k \<noteq> None)"

definition dict_update :: "('k \<times> 'v) list \<Rightarrow> ('k \<times> 'v) list \<Rightarrow> ('k \<times> 'v) list" where
  "dict_update d other = fold (\<lambda>kv. AList.update (fst kv) (snd kv)) other d"

text \<open>Diagnostics and calls to the outside world, in the order the script makes them.\<close>

datatype log_level = DEBUG | INFO | ERROR

datatype log_arg = AStr string | ANone | AInt int | ADict "(string \<times> log_arg) list"
  | ASeq "log_arg list"

datatype event =
    Log log_level string "log_arg list"
  | Print string "log_arg list"
  | HttpGet string
  | SocrataFind string
  | Sleep nat

definition arg_of_dict :: "pydict \<Rightarrow> log_arg" where
  "arg_of_dict d = ADict (map (\<lambda>kv. (fst kv, AStr (snd kv))) d)"

subsection \<open>Character classes and \<^verbatim>\<open>str.rstrip\<close>\<close>

definition is_digit :: "char \<Rightarrow> bool" where
  "is_digit c = (let n = (of_char c :: nat) in 48 \<le> n \<and> n \<le> 57)"

definition is_alnum :: "char \<Rightarrow> bool" where
  "is_alnum c = (let n = (of_char c :: nat) in
     (97 \<le> n \<and> n \<le> 122) \<or> (65 \<le> n \<and> n \<le> 90) \<or> (48 \<le> n \<and> n \<le> 57))"

text \<open>
  A character of the model is a code point below 256.  Of these, \<^verbatim>\<open>\d\<close> matches the ten
  ASCII digits, and \<^verbatim>\<open>str.isspace\<close> holds for 9 to 13, 28 to 32, 133 and 160; they are what
  \<^verbatim>\<open>str.rstrip\<close> removes.
\<close>

definition is_space :: "char \<Rightarrow> bool" where
  "is_space c = (let n = (of_char c :: nat) in
     (9 \<le> n \<and> n \<le> 13) \<or> (28 \<le> n \<and> n \<le> 32) \<or> n = 133 \<or> n = 160)"

definition rstrip :: "string \<Rightarrow> string" where
  "rstrip s = rev (dropWhile is_space (rev s))"

subsection \<open>The regular expressions of the script\<close>

text \<open>
  The fragment of Python's \<^verbatim>\<open>re\<close> the two patterns use: \<^verbatim>\<open>^\<close>, \<^verbatim>\<open>$\<close>
  (which, without \<^verbatim>\<open>re.MULTILINE\<close>, matches at the end of the string and also just
  before a line feed that ends the string), a literal character, a character class repeated
  exactly \<open>n\<close> times, a character class repeated greedily once or more, and the two ends
  of a named group.  \<open>rx_run\<close> is the backtracking matcher: \<open>pos\<close> is the position
  in the subject, \<open>s\<close> the rest of the subject, \<open>opn\<close> the groups that are open with
  what they have consumed, \<open>caps\<close> the groups that are closed.
\<close>

datatype rx =
    Bol
  | Eol
  | Ch char
  | Rep "char \<Rightarrow> bool" nat
  | Plus "char \<Rightarrow> bool"
  | Open string
  | Close

fun first_some :: "('a \<Rightarrow> 'b option) \<Rightarrow> 'a list \<Rightarrow> 'b option" where
  "first_some f [] = None"
| "first_some f (x # xs) = (case f x of Some y \<Rightarrow> Some y | None \<Rightarrow> first_some f xs)"

definition feed :: "string \<Rightarrow> (string \<times> string) list \<Rightarrow> (string \<times> string) list" where
  "feed t opn = map (\<lambda>g. (fst g, snd g @ t)) opn"

fun rx_run :: "rx list \<Rightarrow> nat \<Rightarrow> string \<Rightarrow> (string \<times> string) list \<Rightarrow> (string \<times> string) list
    \<Rightarrow> (string \<times> string) list option" where
  "rx_run [] pos s opn caps = Some caps"
| "rx_run (Bol # rs) pos s opn caps = (if pos = 0 then rx_run rs pos s opn caps else None)"
| "rx_run (Eol # rs) pos s opn caps =
     (if s = [] \<or> s = [CHR 0x0A] then rx_run rs pos s opn caps else None)"
| "rx_run (Ch c # rs) pos s opn caps =
     (case s of [] \<Rightarrow> None
      | x # xs \<Rightarrow> if x = c then rx_run rs (Suc pos) xs (feed [x] opn) caps else None)"
| "rx_run (Rep p n # rs) pos s opn caps =
     (if n \<le> length s \<and> list_all p (take n s)
      then rx_run rs (pos + n) (drop n s) (feed (take n s) opn) caps else None)"
| "rx_run (Plus p # rs) pos s opn caps =
     first_some (\<lambda>n. rx_run rs (pos + n) (drop n s) (feed (take n s) opn) caps)
       (rev [1 ..< Suc (length (takeWhile p s))])"
| "rx_run (Open g # rs) pos s opn caps = rx_run rs pos s ((g, []) # opn) caps"
| "rx_run (Close # rs) pos s opn caps =
     (case opn of [] \<Rightarrow> None | g # opn' \<Rightarrow> rx_run rs pos s opn' (g # caps))"

text \<open>\<^verbatim>\<open>re.match\<close> tries position 0 only; \<^verbatim>\<open>re.search\<close> tries every position, leftmost first.\<close>

definition re_match :: "rx list \<Rightarrow> string \<Rightarrow> (string \<times> string) list option" where
  "re_match rs s = rx_run rs 0 s [] []"

definition re_search :: "rx list \<Rightarrow> string \<Rightarrow> (string \<times> string) list option" where
  "re_search rs s = first_some (\<lambda>i. rx_run rs i (drop i s) [] []) [0 ..< Suc (length s)]"

text \<open>\<^verbatim>\<open>match.group(name)\<close>; a name the match does not have raises \<^verbatim>\<open>IndexError\<close>.\<close>

definition group :: "(string \<times> string) list \<Rightarrow> string \<Rightarrow> py_error + string" where
  "group m g = (case map_of m g of None \<Rightarrow> Inl IndexError | Some t \<Rightarrow> Inr t)"

text \<open>\<^verbatim>\<open>r"^[a-zA-Z0-9]{4}-[a-zA-Z0-9]{4}$"\<close>\<close>

definition socrata_id_pattern :: "rx list" where
  "socrata_id_pattern = [Bol, Rep is_alnum 4, Ch (CHR ''-''), Rep is_alnum 4, Eol]"

definition is_socrata_id :: "string \<Rightarrow> bool" where
  "is_socrata_id input_string =
     (if re_match socrata_id_pattern input_string \<noteq> None then True else False)"

text \<open>\<^verbatim>\<open>r"^(?P<socrata_id>[a-zA-Z0-9]+-[a-zA-Z0-9]+)_(?P<timestamp>\d+\.\d+)_"\<close>\<close>

definition download_pattern :: "rx list" where
  "download_pattern =
     [Bol, Open ''socrata_id'', Plus is_alnum, Ch (CHR ''-''), Plus is_alnum, Close,
      Ch (CHR ''_''), Open ''timestamp'', Plus is_digit, Ch (CHR ''.''), Plus is_digit, Close,
      Ch (CHR ''_'')]"

subsection \<open>\<^verbatim>\<open>float\<close>, \<^verbatim>\<open>datetime.utcfromtimestamp\<close> and \<^verbatim>\<open>strftime\<close>\<close>

text \<open>
  A finite non-negative double is a pair \<open>(m, e)\<close> standing for \<open>m * 2 ^ e\<close>;
  \<open>None\<close> is \<^verbatim>\<open>inf\<close>.  \<open>float_of_ratio n d\<close> is the IEEE 754 binary64 number
  nearest to \<open>n / d\<close> (ties to even, 53 bits, least exponent \<open>-1074\<close>), which is what
  \<^verbatim>\<open>float\<close> returns for a decimal numeral and what a floating-point multiplication
  returns for its exact product.
\<close>

type_synonym double = "(nat \<times> int) option"

fun bitlen :: "nat \<Rightarrow> nat" where
  "bitlen n = (if n = 0 then 0 else Suc (bitlen (n div 2)))"

declare bitlen.simps [simp del]

definition round_half_even :: "nat \<Rightarrow> nat \<Rightarrow> nat" where
  "round_half_even n d =
     (if 2 * (n mod d) < d then n div d
      else if d < 2 * (n mod d) then n div d + 1
      else if even (n div d) then n div d else n div d + 1)"

text \<open>\<open>floor_log2 n d b\<close> is \<open>\<lfloor>log\<^sub>2 (n / d)\<rfloor>\<close>, which is \<open>b\<close> or \<open>b - 1\<close> for
  \<open>b\<close> the difference of the bit lengths.\<close>

definition floor_log2 :: "nat \<Rightarrow> nat \<Rightarrow> int \<Rightarrow> int" where
  "floor_log2 n d b =
     (if (if 0 \<le> b then d * 2 ^ nat b \<le> n else d \<le> n * 2 ^ nat (- b)) then b else b - 1)"

definition scaled_round :: "nat \<Rightarrow> nat \<Rightarrow> int \<Rightarrow> nat" where
  "scaled_round n d e =
     (if 0 \<le> e then round_half_even n (d * 2 ^ nat e) else round_half_even (n * 2 ^ nat (- e)) d)"

definition mk_double :: "nat \<Rightarrow> int \<Rightarrow> double" where
  "mk_double m e = (if 0 \<le> e \<and> 2 ^ 1024 \<le> m * 2 ^ nat e then None else Some (m, e))"

definition float_at :: "nat \<Rightarrow> nat \<Rightarrow> int \<Rightarrow> double" where
  "float_at n d e = mk_double (scaled_round n d e) e"

definition float_of_ratio :: "nat \<Rightarrow> nat \<Rightarrow> double" where
  "float_of_ratio n d =
     (if n = 0 then Some (0, 0)
      else float_at n d (max (floor_log2 n d (int (bitlen n) - int (bitlen d)) - 52) (- 1074)))"

definition nat_of_digits :: "string \<Rightarrow> nat" where
  "nat_of_digits s = foldl (\<lambda>a c. 10 * a + (of_char c - 48)) 0 s"

text \<open>
  \<^verbatim>\<open>float(ts)\<close> for a string of the shape \<^verbatim>\<open>\d+\.\d+\<close>, the only strings the
  script passes; any other string is answered \<^verbatim>\<open>ValueError\<close> here.
\<close>

definition py_float :: "string \<Rightarrow> py_error + double" where
  "py_float ts =
     (case dropWhile is_digit ts of
        [] \<Rightarrow> Inl ValueError
      | c # f \<Rightarrow>
          if c = CHR ''.'' \<and> takeWhile is_digit ts \<noteq> [] \<and> f \<noteq> [] \<and> list_all is_digit f
          then Inr (float_of_ratio (nat_of_digits (takeWhile is_digit ts @ f)) (10 ^ length f))
          else Inl ValueError)"

text \<open>
  \<^verbatim>\<open>datetime.utcfromtimestamp\<close> on a non-negative double \<open>n / d\<close>, as CPython computes
  it: \<^verbatim>\<open>modf\<close>, the fraction times \<^verbatim>\<open>1e6\<close> (a floating-point product) rounded half to
  even to whole microseconds, a carry into the seconds when that reaches a million, then the
  calendar date.  The result here is the number of whole seconds, all that the format
  \<^verbatim>\<open>"%Y-%m-%d %H:%M:%S UTC"\<close> shows.
\<close>

definition round_double :: "double \<Rightarrow> nat" where
  "round_double x =
     (case x of None \<Rightarrow> 0
      | Some (m, e) \<Rightarrow> if 0 \<le> e then m * 2 ^ nat e else round_half_even m (2 ^ nat (- e)))"

definition microseconds :: "nat \<Rightarrow> nat \<Rightarrow> nat" where
  "microseconds n d = round_double (float_of_ratio ((n mod d) * 1000000) d)"

definition whole_seconds :: "nat \<Rightarrow> nat \<Rightarrow> nat" where
  "whole_seconds n d = (if 1000000 \<le> microseconds n d then n div d + 1 else n div d)"

definition utcfromtimestamp :: "double \<Rightarrow> py_error + nat" where
  "utcfromtimestamp x =
     (case x of
        None \<Rightarrow> Inl OutOfRange
      | Some (m, e) \<Rightarrow>
          if 253402300800 \<le> whole_seconds (if 0 \<le> e then m * 2 ^ nat e else m)
                                (if 0 \<le> e then 1 else 2 ^ nat (- e))
          then Inl OutOfRange
          else Inr (whole_seconds (if 0 \<le> e then m * 2 ^ nat e else m)
                      (if 0 \<le> e then 1 else 2 ^ nat (- e))))"

text \<open>The proleptic Gregorian date of a day number counted from 1970-01-01: from the day
  \<open>z\<close> counted from 0000-03-01, its 400-year era and day of era \<open>doe\<close>, the year of era
  \<open>yoe\<close>, the day \<open>doy\<close> and month \<open>mp\<close> of the year that starts in March.\<close>

definition civil_of_mp :: "nat \<Rightarrow> nat \<Rightarrow> nat \<Rightarrow> nat \<times> nat \<times> nat" where
  "civil_of_mp y doy mp =
     (y + (if mp < 10 then 0 else 1), (if mp < 10 then mp + 3 else mp - 9),
      doy - (153 * mp + 2) div 5 + 1)"

definition civil_of_yoe :: "nat \<Rightarrow> nat \<Rightarrow> nat \<Rightarrow> nat \<times> nat \<times> nat" where
  "civil_of_yoe era doe yoe =
     civil_of_mp (yoe + era * 400) (doe - (365 * yoe + yoe div 4 - yoe div 100))
       ((5 * (doe - (365 * yoe + yoe div 4 - yoe div 100)) + 2) div 153)"

definition civil_of_doe :: "nat \<Rightarrow> nat \<Rightarrow> nat \<times> nat \<times> nat" where
  "civil_of_doe era doe =
     civil_of_yoe era doe ((doe - doe div 1460 + doe div 36524 - doe div 146096) div 365)"

definition civil_from_days :: "nat \<Rightarrow> nat \<times> nat \<times> nat" where
  "civil_from_days days =
     civil_of_doe ((days + 719468) div 146097) ((days + 719468) mod 146097)"

definition digit_char :: "nat \<Rightarrow> char" where
  "digit_char n = ''0123456789'' ! (n mod 10)"

definition pad2 :: "nat \<Rightarrow> string" where
  "pad2 n = [digit_char (n div 10), digit_char n]"

definition pad4 :: "nat \<Rightarrow> string" where
  "pad4 n = [digit_char (n div 1000), digit_char (n div 100), digit_char (n div 10), digit_char n]"

text \<open>\<^verbatim>\<open>utc_time.strftime("%Y-%m-%d %H:%M:%S UTC")\<close>, for a year of four digits.\<close>

definition strftime_utc :: "nat \<Rightarrow> string" where
  "strftime_utc sec =
     (case civil_from_days (sec div 86400) of
        (y, m, d) \<Rightarrow>
          pad4 y @ ''-'' @ pad2 m @ ''-'' @ pad2 d @ '' '' @ pad2 (sec mod 86400 div 3600) @ '':''
          @ pad2 (sec mod 3600 div 60) @ '':'' @ pad2 (sec mod 60) @ '' UTC'')"

section \<open>The script\<close>

definition and_then :: "py_error + 'a \<Rightarrow> ('a \<Rightarrow> py_error + 'b) \<Rightarrow> py_error + 'b" where
  "and_then m f = (case m of Inl e \<Rightarrow> Inl e | Inr v \<Rightarrow> f v)"

definition downloads_fname :: string where
  "downloads_fname = ''cdc_data_downloads.csv''"

definition sitemap_data_fname :: string where
  "sitemap_data_fname = ''cdc_data_sitemap_data.csv''"

subsection \<open>\<^verbatim>\<open>build_download_file_dict\<close>\<close>

text \<open>
  A file open for reading is the list of the strings \<^verbatim>\<open>readline()\<close> returns in turn;
  once the list is used up \<^verbatim>\<open>readline()\<close> returns the empty string.  The index maps a
  socrata id to the list of its download records; a download record is the dictionary with
  the keys \<^verbatim>\<open>download_filename\<close> and \<^verbatim>\<open>download_ts\<close>.
\<close>

type_synonym index = "(string \<times> pydict list) list"

definition download_ts_of :: "string \<Rightarrow> py_error + string" where
  "download_ts_of ts =
     and_then (py_float ts) (\<lambda>ts_float.
     and_then (utcfromtimestamp ts_float) (\<lambda>utc_time. Inr (strftime_utc utc_time)))"

text \<open>Lines 77 to 88: the match and the conversion of the time stamp.  \<open>None\<close> is the
  line that does not match.\<close>

definition download_record :: "string \<Rightarrow> py_error + (string \<times> pydict) option" where
  "download_record line =
     (case re_search download_pattern line of
        None \<Rightarrow> Inr None
      | Some m \<Rightarrow>
          and_then (group m ''socrata_id'') (\<lambda>socrata_id.
          and_then (group m ''timestamp'') (\<lambda>ts.
          and_then (download_ts_of ts) (\<lambda>download_ts.
            Inr (Some (socrata_id,
              [(''download_filename'', line), (''download_ts'', download_ts)]))))))"

text \<open>Lines 89 to 93, and the same statements at lines 276 to 279 and 287 to 290: append
  a value to the list under a key, or start the list.\<close>

definition append_under :: "'k \<Rightarrow> 'v \<Rightarrow> ('k \<times> 'v list) list \<Rightarrow> py_error + ('k \<times> 'v list) list" where
  "append_under k v d =
     (if has_key d k then and_then (getitem d k) (\<lambda>l. Inr (AList.update k (l @ [v]) d))
      else Inr (AList.update k [v] d))"

definition download_line :: "string \<Rightarrow> index \<Rightarrow> py_error + (index \<times> event list)" where
  "download_line line results_dict =
     and_then (download_record line) (\<lambda>r.
       case r of
         None \<Rightarrow> Inr (results_dict,
           [Log ERROR ''this downloaded file name %s cannot be mapped to a socrata_id?!? skipping it''
              [AStr line]])
       | Some e \<Rightarrow>
           and_then (append_under (fst e) (snd e) results_dict) (\<lambda>d.
             Inr (d, if has_key results_dict (fst e)
                     then [Log INFO ''this socrata id %s appears more than once in %s?!?''
                             [AStr (fst e), AStr downloads_fname]]
                     else [])))"

fun build_loop :: "string list \<Rightarrow> index \<Rightarrow> event list \<Rightarrow> py_error + (index \<times> event list)" where
  "build_loop [] results_dict evs = Inr (results_dict, evs)"
| "build_loop (l # downloadsf) results_dict evs =
     (if rstrip l = [] then Inr (results_dict, evs)
      else and_then (download_line (rstrip l) results_dict) (\<lambda>r.
             build_loop downloadsf (fst r) (evs @ snd r)))"

definition build_download_file_dict :: "string list \<Rightarrow> py_error + (index \<times> event list)" where
  "build_download_file_dict downloadsf = build_loop downloadsf [] []"

subsection \<open>The collaborators\<close>

text \<open>
  What the script calls and does not define.  \<^verbatim>\<open>rt.find_socrata_dataset_by_id\<close>
  returns a mapping or a value that is false (\<open>None\<close>; the empty mapping is false too),
  and may write to the standard output, which the script captures; or it raises, and then
  nothing of what it wrote is used.  \<^verbatim>\<open>requests.get\<close>
  returns a response with a status code and a text, or raises.  \<open>py_str\<close> is
  \<^verbatim>\<open>str\<close> of a mapping.  \<open>path_name\<close> is \<^verbatim>\<open>Path(urlparse(homepage_url).path).name\<close>,
  which may raise \<^verbatim>\<open>ValueError\<close>.
\<close>

record socrata_reply =
  meta :: "pydict option"
  printed :: string

datatype http_reply = Response int string | RequestFailed string

record env =
  find_socrata_dataset_by_id :: "string \<Rightarrow> py_error + socrata_reply"
  requests_get :: "string \<Rightarrow> http_reply"
  py_str :: "pydict \<Rightarrow> string"
  path_name :: "string \<Rightarrow> py_error + string"

subsection \<open>\<^verbatim>\<open>get_next_homepage_url_line\<close> and \<^verbatim>\<open>is_socrata_id\<close>\<close>

text \<open>\<^verbatim>\<open>str.split(',')\<close>\<close>

fun split_on :: "char \<Rightarrow> string \<Rightarrow> string list" where
  "split_on c [] = [[]]"
| "split_on c (x # xs) =
     (if x = c then [] # split_on c xs
      else (case split_on c xs of [] \<Rightarrow> [[x]] | p # ps \<Rightarrow> (x # p) # ps))"

text \<open>The result is \<open>None\<close> at the end of the file, else the pair of \<^verbatim>\<open>'socrata_id'\<close>
  (\<open>None\<close> when none was found) and \<^verbatim>\<open>'homepage_url'\<close>.  The argument is what
  \<^verbatim>\<open>inputf.readline()\<close> returned.\<close>

type_synonym parsed_homepage_url = "string option \<times> string"

definition get_next_homepage_url_line ::
    "env \<Rightarrow> string \<Rightarrow> py_error + (parsed_homepage_url option \<times> event list)" where
  "get_next_homepage_url_line env l =
     (if rstrip l = [] then Inr (None, [])
      else case split_on (CHR '','') (rstrip l) of
             [sitemap_url, homepage_url] \<Rightarrow>
               and_then (path_name env homepage_url) (\<lambda>socrata_id.
                 if \<not> is_socrata_id socrata_id
                 then Inr (Some (None, homepage_url),
                        [Log ERROR ''could not find a socrata id in %s ???'' [AStr homepage_url]])
                 else Inr (Some (Some socrata_id, homepage_url), []))
           | _ \<Rightarrow> Inl ValueError)"

subsection \<open>\<^verbatim>\<open>get_internet_archive_snapshots\<close>\<close>

definition memento_url :: "string \<Rightarrow> string" where
  "memento_url homepage_url = ''http://web.archive.org/web/timemap/link/'' @ homepage_url"

text \<open>\<^verbatim>\<open>str(response)\<close>: the text \<^verbatim>\<open><Response [404]>\<close> for the status code 404.\<close>

fun str_of_nat :: "nat \<Rightarrow> string" where
  "str_of_nat n =
     (if n < 10 then [digit_char n] else str_of_nat (n div 10) @ [digit_char (n mod 10)])"

declare str_of_nat.simps [simp del]

definition str_of_int :: "int \<Rightarrow> string" where
  "str_of_int i = (if i < 0 then CHR ''-'' # str_of_nat (nat (- i)) else str_of_nat (nat i))"

definition str_of_response :: "int \<Rightarrow> string" where
  "str_of_response status_code = ''<Response ['' @ str_of_int status_code @ '']>''"

definition get_internet_archive_snapshots :: "env \<Rightarrow> string \<Rightarrow> string \<times> event list" where
  "get_internet_archive_snapshots env homepage_url =
     (case requests_get env (memento_url homepage_url) of
        Response status_code text \<Rightarrow>
          if status_code = 200 then (text, [HttpGet (memento_url homepage_url)])
          else ('''', [HttpGet (memento_url homepage_url),
                 Log ERROR ''could not lookup IA snapshots using this url %s: %s''
                   [AStr (memento_url homepage_url), AStr (str_of_response status_code)]])
      | RequestFailed e \<Rightarrow>
          ('''', [HttpGet (memento_url homepage_url),
             Print ''error %s occurred using this url: %s '' [AStr e, AStr (memento_url homepage_url)]]))"

subsection \<open>\<^verbatim>\<open>get_socrata_data\<close>\<close>

text \<open>\<^verbatim>\<open>if k in socrata_meta.keys(): ret[k'] = socrata_meta[k]\<close>\<close>

definition copy_key :: "pydict \<Rightarrow> string \<Rightarrow> string \<Rightarrow> pydict \<Rightarrow> py_error + pydict" where
  "copy_key socrata_meta k k' ret =
     (if has_key socrata_meta k
      then and_then (getitem socrata_meta k) (\<lambda>v. Inr (AList.update k' v ret))
      else Inr ret)"

definition ret_defaults :: pydict where
  "ret_defaults =
     [(''soc_name'', ''UNKN_SOC_NAME''), (''soc_homepage'', ''''), (''soc_description'', '''')]"

text \<open>Lines 160 to 178: the three branches on what the catalog returned.\<close>

definition socrata_ret :: "env \<Rightarrow> string \<Rightarrow> socrata_reply \<Rightarrow> py_error + (pydict \<times> event list)" where
  "socrata_ret env socrata_id reply =
     (case meta reply of
        None \<Rightarrow>
          Inr (AList.update ''socrata_meta'' (printed reply) ret_defaults,
            [Log ERROR ''could not find matching socrata metadata for socrata id %s, but got this: %s??''
               [AStr socrata_id, AStr (printed reply)]])
      | Some socrata_meta \<Rightarrow>
          if socrata_meta = [] then
            Inr (AList.update ''socrata_meta'' (printed reply) ret_defaults,
              [Log ERROR ''could not find matching socrata metadata for socrata id %s, but got this: %s??''
                 [AStr socrata_id, AStr (printed reply)]])
          else if has_key socrata_meta ''error'' then
            and_then (copy_key socrata_meta ''name'' ''soc_name'' ret_defaults) (\<lambda>ret.
              Inr (AList.update ''socrata_meta'' (py_str env socrata_meta) ret,
                [Log ERROR ''socrata API call with id %s gave me an error: %s??''
                   [AStr socrata_id, AStr (py_str env socrata_meta)]]))
          else
            and_then (copy_key socrata_meta ''name'' ''soc_name'' ret_defaults) (\<lambda>ret.
            and_then (copy_key socrata_meta ''homepage'' ''soc_homepage'' ret) (\<lambda>ret.
            and_then (copy_key socrata_meta ''description'' ''soc_description'' ret) (\<lambda>ret.
              Inr (AList.update ''socrata_meta'' (py_str env socrata_meta) ret, [])))))"

definition socrata_data_of :: "env \<Rightarrow> string \<Rightarrow> socrata_reply \<Rightarrow> py_error + (pydict \<times> event list)" where
  "socrata_data_of env socrata_id reply =
     and_then (socrata_ret env socrata_id reply) (\<lambda>r.
     and_then (getitem (fst r) ''socrata_meta'') (\<lambda>raw.
       Inr (fst r,
         [SocrataFind socrata_id]
         @ (if printed reply \<noteq> ''''
            then [Log INFO ''socrata call to %s returned this string to stdout: %s ''
                    [AStr socrata_id, AStr (printed reply)]]
            else [])
         @ snd r
         @ [Log DEBUG ''matched socrata id %s to socrata meta data: %s '' [AStr socrata_id, AStr raw]])))"

text \<open>Lines 152 to 154: the call of the catalog is not guarded, so what it raises leaves
  \<^verbatim>\<open>get_socrata_data\<close>.\<close>

definition get_socrata_data :: "env \<Rightarrow> string \<Rightarrow> py_error + (pydict \<times> event list)" where
  "get_socrata_data env socrata_id =
     and_then (find_socrata_dataset_by_id env socrata_id) (socrata_data_of env socrata_id)"

subsection \<open>The main pass\<close>

text \<open>The loop at lines 271 to 273 and 203 to 205.\<close>

fun snapshot_loop :: "pydict list \<Rightarrow> pydict \<Rightarrow> py_error + pydict" where
  "snapshot_loop [] values = Inr values"
| "snapshot_loop (download_file_dict # ds) values =
     and_then (getitem download_file_dict ''download_filename'') (\<lambda>f.
     and_then (getitem download_file_dict ''download_ts'') (\<lambda>t.
       snapshot_loop ds
         (AList.update ''dataset_snapshot_dl_ts'' t
           (AList.update ''dataset_snapshot_filename'' f values))))"

text \<open>Lines 250 to 258.\<close>

definition homepage_values :: "env \<Rightarrow> string \<Rightarrow> string \<Rightarrow> py_error + (pydict \<times> event list)" where
  "homepage_values env socrata_id homepage_url =
     and_then (get_socrata_data env socrata_id) (\<lambda>r.
       Inr (dict_update
              (AList.update ''internet_archive_snapshots''
                 (fst (get_internet_archive_snapshots env homepage_url))
                 [(''socrata_id'', socrata_id), (''homepage'', homepage_url)])
              (fst r),
            snd (get_internet_archive_snapshots env homepage_url) @ snd r))"

text \<open>Lines 261 to 273.\<close>

definition match_download :: "index \<Rightarrow> string \<Rightarrow> string \<Rightarrow> pydict \<Rightarrow> py_error + (pydict \<times> event list)" where
  "match_download parsed_download_file_dict socrata_id homepage_url values =
     (if \<not> has_key parsed_download_file_dict socrata_id
      then Inr (AList.update ''dataset_snapshot_dl_ts'' ''''
                  (AList.update ''dataset_snapshot_filename'' '''' values),
             [Log INFO ''could not find a download file with a matching socrata id %s in %s???''
                [AStr socrata_id, AStr downloads_fname]])
      else and_then (getitem parsed_download_file_dict socrata_id) (\<lambda>download_file_dict_list.
           and_then (snapshot_loop download_file_dict_list values) (\<lambda>values'.
             Inr (values',
               [Log DEBUG ''matched homepage %s to download file(s) %s ''
                  [AStr homepage_url, ASeq (map arg_of_dict download_file_dict_list)]]))))"

record state =
  results_dict :: "(string \<times> pydict list) list"
  download_files_processed :: "(string \<times> bool) list"
  events :: "event list"

definition append_values :: "pydict \<Rightarrow> (string \<times> pydict list) list \<Rightarrow> py_error + (string \<times> pydict list) list" where
  "append_values values results =
     and_then (getitem values ''soc_name'') (\<lambda>soc_name. append_under soc_name values results)"

text \<open>Lines 250 to 281: one entry with a socrata id.\<close>

definition main_step :: "env \<Rightarrow> index \<Rightarrow> string \<Rightarrow> string \<Rightarrow> state \<Rightarrow> py_error + state" where
  "main_step env parsed_download_file_dict socrata_id homepage_url st =
     and_then (homepage_values env socrata_id homepage_url) (\<lambda>v.
     and_then (match_download parsed_download_file_dict socrata_id homepage_url (fst v)) (\<lambda>w.
     and_then (append_values (fst w) (results_dict st)) (\<lambda>results.
       Inr \<lparr>results_dict = results,
            download_files_processed =
              (if has_key parsed_download_file_dict socrata_id
               then AList.update socrata_id True (download_files_processed st)
               else download_files_processed st),
            events = events st @ snd v @ snd w @ [Sleep 10]\<rparr>)))"

definition arg_of_parsed :: "parsed_homepage_url option \<Rightarrow> log_arg" where
  "arg_of_parsed p =
     (case p of None \<Rightarrow> ANone
      | Some q \<Rightarrow> ADict [(''socrata_id'', (case fst q of None \<Rightarrow> ANone | Some i \<Rightarrow> AStr i)),
                        (''homepage_url'', AStr (snd q))])"

definition looking_at :: "parsed_homepage_url option \<Rightarrow> event list" where
  "looking_at p =
     [Print ''looking at homepage %s from the sitemaps file'' [arg_of_parsed p],
      Log DEBUG ''looking at homepage %s from the sitemaps file'' [arg_of_parsed p]]"

definition finished :: "state \<Rightarrow> event list \<Rightarrow> state" where
  "finished st evs = st\<lparr>events := events st @ evs @ looking_at None
     @ [Log INFO ''finished looking at dataset homepages from the sitemaps file %s''
          [AStr sitemap_data_fname]]\<rparr>"

definition skipped :: "state \<Rightarrow> event list \<Rightarrow> parsed_homepage_url \<Rightarrow> state" where
  "skipped st evs p = st\<lparr>events := events st @ evs @ looking_at (Some p)
     @ [Log INFO ''could not find a socrata id in %s; assuming this is not a dataset homepage and skipping to the next entry''
          [arg_of_parsed (Some p)]]\<rparr>"

text \<open>The loop at lines 233 to 281, over the lines of the sitemaps file.\<close>

fun main_loop :: "env \<Rightarrow> index \<Rightarrow> string list \<Rightarrow> state \<Rightarrow> py_error + state" where
  "main_loop env idx [] st = Inr (finished st [])"
| "main_loop env idx (l # inputf) st =
     and_then (get_next_homepage_url_line env l) (\<lambda>r.
       case fst r of
         None \<Rightarrow> Inr (finished st (snd r))
       | Some p \<Rightarrow>
           (case fst p of
              None \<Rightarrow> main_loop env idx inputf (skipped st (snd r) p)
            | Some socrata_id \<Rightarrow>
                if socrata_id = [] then main_loop env idx inputf (skipped st (snd r) p)
                else and_then
                       (main_step env idx socrata_id (snd p)
                          (st\<lparr>events := events st @ snd r @ looking_at (Some p)\<rparr>))
                       (main_loop env idx inputf)))"

subsection \<open>\<^verbatim>\<open>process_leftover_download_files\<close>\<close>

text \<open>Lines 192 to 195: the values of a leftover once the catalog has answered.\<close>

definition leftover_start :: "string \<Rightarrow> pydict \<Rightarrow> pydict" where
  "leftover_start socrata_id ret =
     dict_update [(''socrata_id'', socrata_id), (''homepage'', '''')] ret"

text \<open>Lines 198 to 201.\<close>

definition leftover_snapshots :: "env \<Rightarrow> pydict \<Rightarrow> py_error + (pydict \<times> event list)" where
  "leftover_snapshots env values =
     (if has_key (AList.update ''internet_archive_snapshots'' '''' values) ''soc_homepage''
      then and_then (getitem (AList.update ''internet_archive_snapshots'' '''' values)
                       ''soc_homepage'') (\<lambda>soc_homepage.
             Inr (AList.update ''homepage'' soc_homepage
                    (AList.update ''internet_archive_snapshots''
                       (fst (get_internet_archive_snapshots env soc_homepage))
                       (AList.update ''internet_archive_snapshots'' '''' values)),
                  snd (get_internet_archive_snapshots env soc_homepage)))
      else Inr (AList.update ''internet_archive_snapshots'' '''' values, []))"

text \<open>Lines 190 to 208: one key of the index that the main pass did not match.\<close>

definition leftover :: "env \<Rightarrow> index \<Rightarrow> string \<Rightarrow> py_error + (pydict \<times> event list)" where
  "leftover env parsed_download_file_dict socrata_id =
     and_then (get_socrata_data env socrata_id) (\<lambda>r.
     and_then (leftover_snapshots env (leftover_start socrata_id (fst r))) (\<lambda>v.
     and_then (getitem parsed_download_file_dict socrata_id) (\<lambda>download_file_dict_list.
     and_then (snapshot_loop download_file_dict_list (fst v)) (\<lambda>values.
       Inr (values,
         Log ERROR ''download file %s not in dataset home page file. going to process what we can still get now.''
           [AStr socrata_id] # snd r @ snd v)))))"

fun leftover_loop :: "env \<Rightarrow> index \<Rightarrow> (string \<times> bool) list \<Rightarrow> string list
    \<Rightarrow> py_error + (pydict list \<times> event list)" where
  "leftover_loop env idx processed [] = Inr ([], [])"
| "leftover_loop env idx processed (socrata_id # keys) =
     (if \<not> has_key processed socrata_id
      then and_then (leftover env idx socrata_id) (\<lambda>v.
           and_then (leftover_loop env idx processed keys) (\<lambda>rest.
             Inr (fst v # fst rest, snd v @ snd rest)))
      else leftover_loop env idx processed keys)"

definition process_leftover_download_files ::
    "env \<Rightarrow> index \<Rightarrow> (string \<times> bool) list \<Rightarrow> py_error + (pydict list \<times> event list)" where
  "process_leftover_download_files env parsed_download_file_dict processed =
     leftover_loop env parsed_download_file_dict processed (map fst parsed_download_file_dict)"

text \<open>Lines 286 to 290.\<close>

fun add_leftovers :: "pydict list \<Rightarrow> (string \<times> pydict list) list
    \<Rightarrow> py_error + (string \<times> pydict list) list" where
  "add_leftovers [] results = Inr results"
| "add_leftovers (leftover_downloads # rest) results =
     and_then (append_values leftover_downloads results) (add_leftovers rest)"

subsection \<open>The report\<close>

definition header_lines :: "string list" where
  "header_lines =
     [''This is supplementary information for a series of data.cdc.gov dataset snapshots taken in January 2025.'',
      ''Methodology notes:        '',
      ''In January 2025, the sitemaps.xml files for data.cdc.gov were used to come up with a list of dataset homepages served by that host.'',
      ''From there, the datasets themselves were downloaded (download_filename, downloaded_ts). The socrata id was inferred from the dataset homepage'' @ [CHR 0x27] @ ''s URL, and the downloaded filename became: socrata-id_download-timestamp-as-unix-epoch_name-downloaded-file-name.'',
      ''To construct the rest of this documentation, socrata metadata was queried for the id. If found, the socrata name metadata became the dataset_name column, and the socrata_description became the description column.'',
      ''All the socrata metadata is a single string in the additional metadata column. The socrata metadata was queried on Feb. 13. 2025. If the socrata metadata query was unsuccessful, the '' @ [CHR 0x22] @ ''UNKN_SOC_NAME'' @ [CHR 0x22] @ '' name was used.'',
      ''The dataset homepages include metadata about the datasets themselves and change over time. The Internet Archive has snapshots of these homepages, and links to the snpshots are in the Internet Archive snapshots column.'',
      ''The data are ordered by dataset name and may contain more than one dataset endpoint, identified by socrata id.'',
      '''',
      ''The dataset snapshots are available at: https://cdcdotgovarchive.org/CDC_datasets/.'',
      ''The script that built this is here: https://github.com/YakShavingAsAService/data.cdc.gov-metadata '']"

definition header_row :: "string list" where
  "header_row =
     [''dataset name'', ''socrata id'', ''download filename'', ''downloaded ts'',
      ''dataset homepage'', ''description'', ''Internet Archive snapshots'',
      ''addtl socrata metadata'']"

fun collect :: "('a \<Rightarrow> py_error + 'b) \<Rightarrow> 'a list \<Rightarrow> py_error + 'b list" where
  "collect f [] = Inr []"
| "collect f (x # xs) = and_then (f x) (\<lambda>y. and_then (collect f xs) (\<lambda>ys. Inr (y # ys)))"

text \<open>\<^verbatim>\<open>sorted(l, key=lambda x: x['socrata_id'])\<close>: the keys are computed first, then the
  list is sorted by them, stably.\<close>

definition sorted_datasets :: "pydict list \<Rightarrow> py_error + pydict list" where
  "sorted_datasets l =
     and_then (collect (\<lambda>x. getitem x ''socrata_id'') l) (\<lambda>ks.
       Inr (map snd (sort_key fst (zip ks l))))"

definition dataset_row :: "string \<Rightarrow> pydict \<Rightarrow> py_error + string list" where
  "dataset_row name ds =
     and_then (getitem ds ''socrata_id'') (\<lambda>c1.
     and_then (getitem ds ''dataset_snapshot_filename'') (\<lambda>c2.
     and_then (getitem ds ''dataset_snapshot_dl_ts'') (\<lambda>c3.
     and_then (getitem ds ''homepage'') (\<lambda>c4.
     and_then (getitem ds ''soc_description'') (\<lambda>c5.
     and_then (getitem ds ''internet_archive_snapshots'') (\<lambda>c6.
     and_then (getitem ds ''socrata_meta'') (\<lambda>c7.
       Inr [name, c1, c2, c3, c4, c5, c6, c7])))))))"

definition name_rows :: "(string \<times> pydict list) list \<Rightarrow> string \<Rightarrow> py_error + string list list" where
  "name_rows results name =
     and_then (getitem results name) (\<lambda>l.
     and_then (sorted_datasets l) (\<lambda>ds. collect (dataset_row name) ds))"

definition data_rows :: "(string \<times> pydict list) list \<Rightarrow> py_error + string list list" where
  "data_rows results =
     and_then (collect (name_rows results) (sort (map fst results))) (\<lambda>rs. Inr (concat rs))"

definition report :: "(string \<times> pydict list) list \<Rightarrow> py_error + string list list" where
  "report results =
     and_then (data_rows results) (\<lambda>rows.
       Inr (map (\<lambda>hl. [hl]) header_lines @ [header_row] @ rows))"

subsection \<open>The whole run\<close>

definition initial :: "event list \<Rightarrow> state" where
  "initial evs = \<lparr>results_dict = [], download_files_processed = [],
     events = evs @ [Log INFO ''getting dataset homepages out of the sitemaps file: %s''
                       [AStr sitemap_data_fname]]\<rparr>"

text \<open>The results map once the leftovers are added (up to line 290).\<close>

definition assemble :: "env \<Rightarrow> index \<Rightarrow> string list \<Rightarrow> event list
    \<Rightarrow> py_error + (string \<times> pydict list) list" where
  "assemble env idx inputf evs =
     and_then (main_loop env idx inputf (initial evs)) (\<lambda>st.
     and_then (process_leftover_download_files env idx (download_files_processed st)) (\<lambda>lo.
       add_leftovers (fst lo) (results_dict st)))"

text \<open>The two messages logged when the script starts (lines 54 and 55).\<close>

definition startup :: "event list" where
  "startup = [Log INFO ''documenting datasets downloaded in %s'' [AStr downloads_fname],
              Log INFO ''dataset homepages are in %s'' [AStr sitemap_data_fname]]"

definition run :: "env \<Rightarrow> string list \<Rightarrow> string list \<Rightarrow> py_error + string list list" where
  "run env downloadsf inputf =
     and_then (build_download_file_dict downloadsf) (\<lambda>b.
     and_then (assemble env (fst b) inputf (startup @ snd b)) report)"

section \<open>Definitions for the statements\<close>

text \<open>
  Concrete collaborators for the closed theorems.  The catalog knows \<^verbatim>\<open>abcd-1234\<close>
  (a normal answer) and \<^verbatim>\<open>eeee-0000\<close> (an answer with an \<^verbatim>\<open>error\<close> key) and has
  nothing on any other id; the archive answers every request with status 200; \<open>py_str\<close>
  writes a mapping the way Python does when no key or value needs escaping; \<open>path_name\<close>
  is the text after the last slash.
\<close>

definition demo_str :: "pydict \<Rightarrow> string" where
  "demo_str m =
     ''{'' @ concat (map (\<lambda>kv. [CHR 0x27] @ fst kv @ [CHR 0x27] @ '': '' @ [CHR 0x27] @ snd kv
                              @ [CHR 0x27] @ '', '') (butlast m))
     @ (case m of [] \<Rightarrow> ''''
        | _ \<Rightarrow> [CHR 0x27] @ fst (last m) @ [CHR 0x27] @ '': '' @ [CHR 0x27] @ snd (last m)
                 @ [CHR 0x27])
     @ ''}''"

definition demo_catalog :: "string \<Rightarrow> socrata_reply" where
  "demo_catalog i =
     (if i = ''abcd-1234''
      then \<lparr>meta = Some [(''name'', ''Births''), (''description'', ''NCHS births''),
                         (''homepage'', ''https://data.cdc.gov/d/abcd-1234'')],
            printed = ''''\<rparr>
      else if i = ''eeee-0000''
      then \<lparr>meta = Some [(''error'', ''not tabular''), (''name'', ''Deaths'')], printed = ''''\<rparr>
      else \<lparr>meta = None, printed = ''no dataset''\<rparr>)"

definition demo_env :: env where
  "demo_env =
     \<lparr>find_socrata_dataset_by_id = (\<lambda>i. Inr (demo_catalog i)),
      requests_get = (\<lambda>u. Response 200 (''snapshots of '' @ u)),
      py_str = demo_str,
      path_name = (\<lambda>u. Inr (last (split_on (CHR ''/'') u)))\<rparr>"

text \<open>The same collaborators with no network: the call of the catalog and the request to
  the archive both raise a connection error.\<close>

definition offline_env :: env where
  "offline_env =
     \<lparr>find_socrata_dataset_by_id = (\<lambda>i. Inl (Raised ''ConnectionError'')),
      requests_get = (\<lambda>u. RequestFailed ''ConnectionError''),
      py_str = demo_str,
      path_name = (\<lambda>u. Inr (last (split_on (CHR ''/'') u)))\<rparr>"

text \<open>The shape the download pattern gives a key: alphanumerics, a hyphen, alphanumerics,
  at least one on each side.\<close>

definition loose_id :: "string \<Rightarrow> bool" where
  "loose_id k =
     (\<exists>a b. k = a @ ''-'' @ b \<and> a \<noteq> [] \<and> b \<noteq> [] \<and> list_all is_alnum a \<and> list_all is_alnum b)"

text \<open>The shape of a socrata id: four alphanumerics, a hyphen, four alphanumerics.\<close>

definition id_shape :: "string \<Rightarrow> bool" where
  "id_shape s = (\<exists>a b. s = a @ ''-'' @ b \<and> length a = 4 \<and> length b = 4
     \<and> list_all is_alnum a \<and> list_all is_alnum b)"

text \<open>The list under a key of a dictionary of lists, empty when the key is absent.\<close>

definition idx_list :: "('k \<times> 'v list) list \<Rightarrow> 'k \<Rightarrow> 'v list" where
  "idx_list d k = (case map_of d k of None \<Rightarrow> [] | Some l \<Rightarrow> l)"

text \<open>The records of a results map, all lists together; the records of one socrata id; the
  value of a field of a record (empty when the record lacks the key); the eight fields a row
  of the report reads.\<close>

definition all_records :: "('k \<times> 'v list) list \<Rightarrow> 'v list" where
  "all_records d = concat (map snd d)"

definition with_id :: "string \<Rightarrow> pydict list \<Rightarrow> pydict list" where
  "with_id i rs = filter (\<lambda>r. map_of r ''socrata_id'' = Some i) rs"

definition field :: "pydict \<Rightarrow> string \<Rightarrow> string" where
  "field r k = (case map_of r k of None \<Rightarrow> [] | Some v \<Rightarrow> v)"

definition output_fields :: "string list" where
  "output_fields =
     [''socrata_id'', ''homepage'', ''internet_archive_snapshots'', ''soc_name'',
      ''soc_description'', ''socrata_meta'', ''dataset_snapshot_filename'',
      ''dataset_snapshot_dl_ts'']"

definition has_fields :: "pydict \<Rightarrow> bool" where
  "has_fields r = list_all (has_key r) output_fields"

text \<open>The lines a reading loop gets before the end of the file or a blank line stops it;
  the socrata id \<^verbatim>\<open>get_next_homepage_url_line\<close> finds in a line; the ids of the
  homepage stream, in order.\<close>

definition read_lines :: "string list \<Rightarrow> string list" where
  "read_lines f = takeWhile (\<lambda>l. rstrip l \<noteq> []) f"

definition entry_id :: "env \<Rightarrow> string \<Rightarrow> string option" where
  "entry_id env l =
     (case get_next_homepage_url_line env l of
        Inl e \<Rightarrow> None
      | Inr r \<Rightarrow> (case fst r of None \<Rightarrow> None | Some p \<Rightarrow> fst p))"

definition homepage_ids :: "env \<Rightarrow> string list \<Rightarrow> string list" where
  "homepage_ids env f =
     concat (map (\<lambda>l. case entry_id env l of None \<Rightarrow> [] | Some i \<Rightarrow> [i]) (read_lines f))"



text \<open>An index as the builder makes it: no key twice, no empty list, both keys in every
  download record.\<close>

definition wf_index :: "index \<Rightarrow> bool" where
  "wf_index idx =
     (distinct (map fst idx)
      \<and> list_all (\<lambda>kv. snd kv \<noteq> []
            \<and> list_all (\<lambda>d. has_key d ''download_filename'' \<and> has_key d ''download_ts'') (snd kv))
          idx)"

text \<open>The snapshot fields the engine gives a socrata id: those of the last download record
  of the id, or empty strings when the index does not have the id.\<close>

definition snapshot_filename :: "index \<Rightarrow> string \<Rightarrow> string" where
  "snapshot_filename idx i =
     (case map_of idx i of None \<Rightarrow> '''' | Some recs \<Rightarrow> field (last recs) ''download_filename'')"

definition snapshot_dl_ts :: "index \<Rightarrow> string \<Rightarrow> string" where
  "snapshot_dl_ts idx i =
     (case map_of idx i of None \<Rightarrow> '''' | Some recs \<Rightarrow> field (last recs) ''download_ts'')"

text \<open>A record as the engine assembles it for a socrata id: the id, the eight fields, the
  snapshot fields of the id.\<close>

definition good_record :: "index \<Rightarrow> string \<Rightarrow> pydict \<Rightarrow> bool" where
  "good_record idx i r =
     (map_of r ''socrata_id'' = Some i \<and> has_fields r
      \<and> field r ''dataset_snapshot_filename'' = snapshot_filename idx i
      \<and> field r ''dataset_snapshot_dl_ts'' = snapshot_dl_ts idx i)"

text \<open>A results map as the engine keeps it: no name twice, and every record under its own
  \<^verbatim>\<open>soc_name\<close>.\<close>

definition stored_under_name :: "(string \<times> pydict list) list \<Rightarrow> bool" where
  "stored_under_name rd =
     list_all (\<lambda>kv. list_all (\<lambda>r. map_of r ''soc_name'' = Some (fst kv)) (snd kv)) rd"

definition wf_results :: "(string \<times> pydict list) list \<Rightarrow> bool" where
  "wf_results rd = (distinct (map fst rd) \<and> stored_under_name rd)"

text \<open>The rows of the report: the records with the name they are stored under, the row of
  such a pair, and the order of the rows (by name, then by socrata id).\<close>

definition named_records :: "(string \<times> pydict list) list \<Rightarrow> (string \<times> pydict) list" where
  "named_records rd = concat (map (\<lambda>kv. map (Pair (fst kv)) (snd kv)) rd)"

definition row_of :: "string \<times> pydict \<Rightarrow> string list" where
  "row_of p =
     [fst p, field (snd p) ''socrata_id'', field (snd p) ''dataset_snapshot_filename'',
      field (snd p) ''dataset_snapshot_dl_ts'', field (snd p) ''homepage'',
      field (snd p) ''soc_description'', field (snd p) ''internet_archive_snapshots'',
      field (snd p) ''socrata_meta'']"

definition row_order :: "string \<times> pydict \<Rightarrow> string \<times> pydict \<Rightarrow> bool" where
  "row_order p q =
     (fst p < fst q
      \<or> (fst p = fst q \<and> field (snd p) ''socrata_id'' \<le> field (snd q) ''socrata_id''))"

text \<open>The rows in the order the report writes them: the names sorted, and under each name
  its records sorted by socrata id.\<close>

definition sorted_rows :: "(string \<times> pydict list) list \<Rightarrow> (string \<times> pydict) list" where
  "sorted_rows rd =
     concat (map (\<lambda>name. map (Pair name) (sort_key (\<lambda>r. field r ''socrata_id'') (idx_list rd name)))
               (sort (map fst rd)))"

definition demo_record :: "string \<Rightarrow> string \<Rightarrow> pydict" where
  "demo_record name i =
     [(''socrata_id'', i), (''homepage'', ''https://data.cdc.gov/d/'' @ i),
      (''internet_archive_snapshots'', ''''), (''soc_name'', name), (''soc_homepage'', ''''),
      (''soc_description'', ''''), (''socrata_meta'', ''''),
      (''dataset_snapshot_filename'', ''''), (''dataset_snapshot_dl_ts'', '''')]"

definition demo_results :: "(string \<times> pydict list) list" where
  "demo_results =
     [(''Deaths'', [demo_record ''Deaths'' ''zzzz-0002'', demo_record ''Deaths'' ''aaaa-0001'']),
      (''Births'', [demo_record ''Births'' ''mmmm-0003''])]"

text \<open>A concrete run: four downloads, two of \<^verbatim>\<open>abcd-1234\<close> and two of \<^verbatim>\<open>zzzz-9999\<close>, and
  a homepage list that names \<^verbatim>\<open>abcd-1234\<close> twice and \<^verbatim>\<open>zzzz-9999\<close> never.\<close>

definition demo_downloads :: "string list" where
  "demo_downloads =
     [''abcd-1234_2.5_first.csv'', ''zzzz-9999_2.5_x.csv'',
      ''abcd-1234_1736710755.963349_second.csv'', ''zzzz-9999_1736710755.963349_y.csv'']"

definition demo_index :: index where
  "demo_index =
     [(''abcd-1234'',
        [[(''download_filename'', ''abcd-1234_2.5_first.csv''),
          (''download_ts'', ''1970-01-01 00:00:02 UTC'')],
         [(''download_filename'', ''abcd-1234_1736710755.963349_second.csv''),
          (''download_ts'', ''2025-01-12 19:39:15 UTC'')]]),
      (''zzzz-9999'',
        [[(''download_filename'', ''zzzz-9999_2.5_x.csv''),
          (''download_ts'', ''1970-01-01 00:00:02 UTC'')],
         [(''download_filename'', ''zzzz-9999_1736710755.963349_y.csv''),
          (''download_ts'', ''2025-01-12 19:39:15 UTC'')]])]"

definition demo_log :: "event list" where
  "demo_log =
     [Log INFO ''this socrata id %s appears more than once in %s?!?''
        [AStr ''abcd-1234'', AStr downloads_fname],
      Log INFO ''this socrata id %s appears more than once in %s?!?''
        [AStr ''zzzz-9999'', AStr downloads_fname]]"

definition demo_homepages :: "string list" where
  "demo_homepages =
     [''https://data.cdc.gov/sitemap.xml,https://data.cdc.gov/d/abcd-1234'',
      ''https://data.cdc.gov/sitemap2.xml,https://data.cdc.gov/d/abcd-1234'']"

text \<open>The number of records of a socrata id in the results of a run, when the run
  returns.\<close>

definition count_in :: "string \<Rightarrow> py_error + (string \<times> pydict list) list \<Rightarrow> nat option" where
  "count_in i res =
     (case res of Inl e \<Rightarrow> None | Inr rd \<Rightarrow> Some (length (with_id i (all_records rd))))"

section \<open>Evaluation of the numeric and textual functions\<close>

lemmas num_defs = py_float_def is_digit_def nat_of_digits_def float_of_ratio_def bitlen.simps
  round_half_even_def floor_log2_def scaled_round_def mk_double_def float_at_def
  utcfromtimestamp_def whole_seconds_def microseconds_def round_double_def

lemmas date_defs = strftime_utc_def civil_from_days_def civil_of_doe_def civil_of_yoe_def
  civil_of_mp_def pad2_def pad4_def digit_char_def

lemmas rx_defs = re_search_def re_match_def download_pattern_def socrata_id_pattern_def
  is_alnum_def is_digit_def feed_def

lemma births_match:
  "re_search download_pattern ''yt7u-eiyg_1736710755.963349_NCHS_Births.csv.gz'' =
     Some [(''timestamp'', ''1736710755.963349''), (''socrata_id'', ''yt7u-eiyg'')]"
  by (simp add: rx_defs upt_rec)

lemma births_float: "py_float ''1736710755.963349'' = Inr (Some (7284292870580099, - 22))"
  by (simp add: num_defs)

lemma births_seconds: "utcfromtimestamp (Some (7284292870580099, - 22)) = Inr 1736710755"
  by (simp add: num_defs)

lemma births_strftime: "strftime_utc 1736710755 = ''2025-01-12 19:39:15 UTC''"
  by (simp add: date_defs)

lemma births_ts: "download_ts_of ''1736710755.963349'' = Inr ''2025-01-12 19:39:15 UTC''"
  by (simp add: download_ts_of_def and_then_def births_float births_seconds births_strftime)

lemma births_rstrip:
  "rstrip ''yt7u-eiyg_1736710755.963349_NCHS_Births.csv.gz'' =
     ''yt7u-eiyg_1736710755.963349_NCHS_Births.csv.gz''"
  by (simp add: rstrip_def is_space_def)

text \<open>
  C9.  The download list whose only line is
  \<^verbatim>\<open>yt7u-eiyg_1736710755.963349_NCHS_Births.csv.gz\<close> is accepted: the index has the one
  key \<^verbatim>\<open>yt7u-eiyg\<close>, with one record whose time stamp is \<^verbatim>\<open>2025-01-12 19:39:15 UTC\<close>,
  and nothing is logged.
\<close>

theorem births_line_parsed:
  "build_download_file_dict [''yt7u-eiyg_1736710755.963349_NCHS_Births.csv.gz''] =
     Inr ([(''yt7u-eiyg'',
            [[(''download_filename'', ''yt7u-eiyg_1736710755.963349_NCHS_Births.csv.gz''),
              (''download_ts'', ''2025-01-12 19:39:15 UTC'')]])], [])"
  by (simp add: build_download_file_dict_def births_rstrip download_line_def download_record_def
      births_match group_def births_ts and_then_def append_under_def has_key_def)

text \<open>
  C7.  The validator accepts \<^verbatim>\<open>abcd-1234\<close> and rejects \<^verbatim>\<open>abcd1234\<close> and
  \<^verbatim>\<open>ab-cd\<close>, but it also accepts \<^verbatim>\<open>abcd-1234\<close> followed by a line feed, a string of
  ten characters: \<^verbatim>\<open>$\<close> matches before a line feed that ends the string.
\<close>

theorem is_socrata_id_trailing_newline:
  "is_socrata_id ''abcd-1234'' \<and> \<not> is_socrata_id ''abcd1234'' \<and> \<not> is_socrata_id ''ab-cd''
   \<and> is_socrata_id (''abcd-1234'' @ [CHR 0x0A])"
  by (simp add: is_socrata_id_def rx_defs)

section \<open>What a match of the download pattern captures\<close>

lemma first_some_SomeD: "first_some f xs = Some y \<Longrightarrow> \<exists>x\<in>set xs. f x = Some y"
  by (induction xs) (auto split: option.splits)

lemma take_takeWhile_all: "n \<le> length (takeWhile p s) \<Longrightarrow> list_all p (take n s)"
  by (induction s arbitrary: n) (auto simp: take_Cons' split: if_splits)

lemma take_takeWhile_nonempty: "0 < n \<Longrightarrow> n \<le> length (takeWhile p s) \<Longrightarrow> take n s \<noteq> []"
  by (cases s) auto

lemma rx_PlusD:
  assumes "rx_run (Plus p # rs) pos s opn caps = Some m"
  shows "\<exists>n. 0 < n \<and> n \<le> length (takeWhile p s)
           \<and> rx_run rs (pos + n) (drop n s) (feed (take n s) opn) caps = Some m"
proof -
  from assms have "first_some (\<lambda>n. rx_run rs (pos + n) (drop n s) (feed (take n s) opn) caps)
      (rev [1 ..< Suc (length (takeWhile p s))]) = Some m"
    by simp
  from first_some_SomeD [OF this] obtain n
    where n: "n \<in> set (rev [1 ..< Suc (length (takeWhile p s))])"
      and r: "rx_run rs (pos + n) (drop n s) (feed (take n s) opn) caps = Some m"
    by blast
  from n have "0 < n \<and> n \<le> length (takeWhile p s)" by auto
  with r show ?thesis by blast
qed

lemma rx_PlusE:
  assumes "rx_run (Plus p # rs) pos s opn caps = Some m"
  obtains n where "0 < n" "n \<le> length (takeWhile p s)"
    "rx_run rs (pos + n) (drop n s) (feed (take n s) opn) caps = Some m"
  using rx_PlusD [OF assms] by blast

lemma rx_ChE:
  assumes "rx_run (Ch c # rs) pos s opn caps = Some m"
  obtains xs where "s = c # xs" "rx_run rs (Suc pos) xs (feed [c] opn) caps = Some m"
  using assms by (auto split: list.splits if_splits)

lemma loose_idI:
  "a \<noteq> [] \<Longrightarrow> b \<noteq> [] \<Longrightarrow> list_all is_alnum a \<Longrightarrow> list_all is_alnum b
   \<Longrightarrow> loose_id (a @ CHR ''-'' # b)"
  by (auto simp: loose_id_def)

lemma download_run_id:
  "rx_run download_pattern k s [] [] = Some m \<Longrightarrow>
     \<exists>i t. m = [(''timestamp'', t), (''socrata_id'', i)] \<and> loose_id i"
  apply (unfold download_pattern_def)
  apply (simp del: rx_run.simps(4) rx_run.simps(6) split: if_splits)
  apply (erule rx_PlusE)
  apply (erule rx_ChE)
  apply (erule rx_PlusE)
  apply (simp add: feed_def del: rx_run.simps(4) rx_run.simps(6))
  apply (erule rx_ChE)
  apply (simp add: feed_def del: rx_run.simps(4) rx_run.simps(6))
  apply (erule rx_PlusE)
  apply (erule rx_ChE)
  apply (erule rx_PlusE)
  apply (simp add: feed_def del: rx_run.simps(4) rx_run.simps(6))
  apply (erule rx_ChE)
  apply (simp add: feed_def)
  apply (auto intro!: loose_idI simp: take_takeWhile_all take_takeWhile_nonempty)
  done

lemma download_match_id:
  assumes "re_search download_pattern line = Some m"
  shows "\<exists>i t. m = [(''timestamp'', t), (''socrata_id'', i)] \<and> loose_id i"
proof -
  from assms obtain k where "rx_run download_pattern k (drop k line) [] [] = Some m"
    unfolding re_search_def by (auto dest!: first_some_SomeD)
  then show ?thesis by (rule download_run_id)
qed

lemma download_record_SomeD:
  assumes "download_record line = Inr (Some e)"
  shows "loose_id (fst e) \<and> (\<exists>t. snd e = [(''download_filename'', line), (''download_ts'', t)])"
proof (cases "re_search download_pattern line")
  case None
  with assms show ?thesis by (simp add: download_record_def)
next
  case (Some m)
  from download_match_id [OF Some] obtain i t
    where m: "m = [(''timestamp'', t), (''socrata_id'', i)]" and i: "loose_id i" by blast
  from assms Some m have "\<exists>d. e = (i, [(''download_filename'', line), (''download_ts'', d)])"
    by (auto simp: download_record_def group_def and_then_def split: sum.splits)
  with i show ?thesis by auto
qed

text \<open>
  What \<^verbatim>\<open>is_socrata_id\<close> accepts: the strings of the shape of a socrata id, and those
  strings followed by one line feed, which the \<^verbatim>\<open>$\<close> of the pattern lets through.
\<close>

lemma socrata_run:
  "rx_run socrata_id_pattern 0 s [] [] \<noteq> None \<longleftrightarrow>
     4 \<le> length s \<and> list_all is_alnum (take 4 s)
     \<and> (\<exists>xs. drop 4 s = CHR ''-'' # xs \<and> 4 \<le> length xs \<and> list_all is_alnum (take 4 xs)
           \<and> (drop 4 xs = [] \<or> drop 4 xs = [CHR 0x0A]))"
  by (auto simp: socrata_id_pattern_def feed_def split: list.splits)

lemma is_socrata_id_iff:
  "is_socrata_id s \<longleftrightarrow> id_shape s \<or> (\<exists>t. s = t @ [CHR 0x0A] \<and> id_shape t)"
proof
  assume "is_socrata_id s"
  then have "rx_run socrata_id_pattern 0 s [] [] \<noteq> None"
    by (simp add: is_socrata_id_def re_match_def split: if_splits)
  then obtain xs where a: "4 \<le> length s" "list_all is_alnum (take 4 s)"
    and d: "drop 4 s = CHR ''-'' # xs" and b: "4 \<le> length xs" "list_all is_alnum (take 4 xs)"
    and e: "drop 4 xs = [] \<or> drop 4 xs = [CHR 0x0A]"
    unfolding socrata_run by blast
  have s: "s = take 4 s @ CHR ''-'' # take 4 xs @ drop 4 xs"
    using d by (metis append_take_drop_id)
  from e show "id_shape s \<or> (\<exists>t. s = t @ [CHR 0x0A] \<and> id_shape t)"
  proof
    assume "drop 4 xs = []"
    with s a b have "id_shape s"
      unfolding id_shape_def by (intro exI [of _ "take 4 s"] exI [of _ "take 4 xs"]) auto
    then show ?thesis ..
  next
    assume "drop 4 xs = [CHR 0x0A]"
    with s have "s = (take 4 s @ CHR ''-'' # take 4 xs) @ [CHR 0x0A]" by simp
    moreover have "id_shape (take 4 s @ CHR ''-'' # take 4 xs)"
      unfolding id_shape_def using a b
      by (intro exI [of _ "take 4 s"] exI [of _ "take 4 xs"]) auto
    ultimately show ?thesis by blast
  qed
next
  assume "id_shape s \<or> (\<exists>t. s = t @ [CHR 0x0A] \<and> id_shape t)"
  then have "rx_run socrata_id_pattern 0 s [] [] \<noteq> None"
    unfolding socrata_run by (auto simp: id_shape_def)
  then show "is_socrata_id s"
    by (auto simp: is_socrata_id_def re_match_def)
qed
section \<open>The metadata resolver\<close>

lemmas dict_defs = getitem_def has_key_def and_then_def copy_key_def

text \<open>
  When the catalog returns, \<^verbatim>\<open>get_socrata_data\<close> returns the four keys \<^verbatim>\<open>soc_name\<close>,
  \<^verbatim>\<open>soc_homepage\<close>, \<^verbatim>\<open>soc_description\<close>, \<^verbatim>\<open>socrata_meta\<close>.  When the catalog returned nothing
  (a false value), the name is \<^verbatim>\<open>UNKN_SOC_NAME\<close> and \<^verbatim>\<open>socrata_meta\<close> is the captured output.
  When the answer has an \<^verbatim>\<open>error\<close> key, the name is the answer's name if it has one and
  \<^verbatim>\<open>socrata_meta\<close> is the string form of the answer.  Otherwise name, homepage and
  description are each taken from the answer when present, and \<^verbatim>\<open>socrata_meta\<close> is the
  string form of the answer.
\<close>

lemma get_socrata_data_branches:
  assumes "find_socrata_dataset_by_id env i = Inr reply"
  shows "\<exists>ret evs. get_socrata_data env i = Inr (ret, evs)
     \<and> map fst ret = [''soc_name'', ''soc_homepage'', ''soc_description'', ''socrata_meta'']
     \<and> ((meta reply = None \<or> meta reply = Some [])
          \<longrightarrow> ret = [(''soc_name'', ''UNKN_SOC_NAME''), (''soc_homepage'', ''''),
                     (''soc_description'', ''''), (''socrata_meta'', printed reply)])
     \<and> (\<forall>m. meta reply = Some m \<and> m \<noteq> [] \<and> has_key m ''error''
          \<longrightarrow> ret = [(''soc_name'',
                      (case map_of m ''name'' of None \<Rightarrow> ''UNKN_SOC_NAME'' | Some n \<Rightarrow> n)),
                     (''soc_homepage'', ''''), (''soc_description'', ''''),
                     (''socrata_meta'', py_str env m)])
     \<and> (\<forall>m. meta reply = Some m \<and> m \<noteq> [] \<and> \<not> has_key m ''error''
          \<longrightarrow> ret = [(''soc_name'',
                      (case map_of m ''name'' of None \<Rightarrow> ''UNKN_SOC_NAME'' | Some n \<Rightarrow> n)),
                     (''soc_homepage'', (case map_of m ''homepage'' of None \<Rightarrow> '''' | Some h \<Rightarrow> h)),
                     (''soc_description'',
                      (case map_of m ''description'' of None \<Rightarrow> '''' | Some d \<Rightarrow> d)),
                     (''socrata_meta'', py_str env m)])"
  using assms
  by (auto simp: get_socrata_data_def socrata_data_of_def socrata_ret_def ret_defaults_def dict_defs
      split: option.splits)

lemma demo_branches:
  "(\<exists>evs. get_socrata_data demo_env ''zzzz-9999'' =
      Inr ([(''soc_name'', ''UNKN_SOC_NAME''), (''soc_homepage'', ''''), (''soc_description'', ''''),
            (''socrata_meta'', ''no dataset'')], evs))
   \<and> (\<exists>evs. get_socrata_data demo_env ''eeee-0000'' =
      Inr ([(''soc_name'', ''Deaths''), (''soc_homepage'', ''''), (''soc_description'', ''''),
            (''socrata_meta'', demo_str [(''error'', ''not tabular''), (''name'', ''Deaths'')])],
           evs))
   \<and> (\<exists>evs. get_socrata_data demo_env ''abcd-1234'' =
      Inr ([(''soc_name'', ''Births''), (''soc_homepage'', ''https://data.cdc.gov/d/abcd-1234''),
            (''soc_description'', ''NCHS births''),
            (''socrata_meta'',
             demo_str [(''name'', ''Births''), (''description'', ''NCHS births''),
                       (''homepage'', ''https://data.cdc.gov/d/abcd-1234'')])], evs))"
  using get_socrata_data_branches [of demo_env "''zzzz-9999''" "demo_catalog ''zzzz-9999''"]
    get_socrata_data_branches [of demo_env "''eeee-0000''" "demo_catalog ''eeee-0000''"]
    get_socrata_data_branches [of demo_env "''abcd-1234''" "demo_catalog ''abcd-1234''"]
  by (simp add: demo_env_def demo_catalog_def has_key_def)

text \<open>What the catalog raises is what \<^verbatim>\<open>get_socrata_data\<close> raises, and it raises nothing
  else.\<close>

lemma get_socrata_data_raises:
  "find_socrata_dataset_by_id env i = Inl e \<Longrightarrow> get_socrata_data env i = Inl e"
  by (simp add: get_socrata_data_def and_then_def)

lemma get_socrata_data_Inl:
  "get_socrata_data env i = Inl e \<Longrightarrow> find_socrata_dataset_by_id env i = Inl e"
  by (cases "find_socrata_dataset_by_id env i")
     (auto simp: get_socrata_data_raises dest: get_socrata_data_branches)

text \<open>
  C5.  With no network the call of the catalog raises, and \<^verbatim>\<open>get_socrata_data\<close>, which
  does not guard the call, raises too instead of returning the defaults; the main pass stops
  at the first homepage entry with a socrata id, and so does the leftover pass at its first
  identifier.  On the same failure \<^verbatim>\<open>get_internet_archive_snapshots\<close>, which guards its
  request, returns the empty string.
\<close>

theorem catalog_failure_not_caught:
  "get_socrata_data offline_env ''abcd-1234'' = Inl (Raised ''ConnectionError'')
   \<and> get_internet_archive_snapshots offline_env ''https://data.cdc.gov/d/abcd-1234'' =
       ('''', [HttpGet ''http://web.archive.org/web/timemap/link/https://data.cdc.gov/d/abcd-1234'',
               Print ''error %s occurred using this url: %s ''
                 [AStr ''ConnectionError'',
                  AStr ''http://web.archive.org/web/timemap/link/https://data.cdc.gov/d/abcd-1234'']])
   \<and> assemble offline_env demo_index demo_homepages demo_log = Inl (Raised ''ConnectionError'')
   \<and> process_leftover_download_files offline_env demo_index [] = Inl (Raised ''ConnectionError'')"
proof -
  have 1: "get_socrata_data offline_env i = Inl (Raised ''ConnectionError'')" for i
    by (simp add: get_socrata_data_def and_then_def offline_env_def)
  have 2: "get_next_homepage_url_line offline_env
     ''https://data.cdc.gov/sitemap.xml,https://data.cdc.gov/d/abcd-1234'' =
     Inr (Some (Some ''abcd-1234'', ''https://data.cdc.gov/d/abcd-1234''), [])"
    by (simp add: get_next_homepage_url_line_def rstrip_def is_space_def offline_env_def and_then_def
        is_socrata_id_def rx_defs)
  have 3: "assemble offline_env demo_index demo_homepages demo_log = Inl (Raised ''ConnectionError'')"
    by (simp add: assemble_def demo_homepages_def 2 main_step_def homepage_values_def 1 and_then_def)
  have 4: "process_leftover_download_files offline_env demo_index [] = Inl (Raised ''ConnectionError'')"
    by (simp add: process_leftover_download_files_def demo_index_def leftover_def 1 and_then_def
        has_key_def)
  have 5: "get_internet_archive_snapshots offline_env ''https://data.cdc.gov/d/abcd-1234'' =
       ('''', [HttpGet ''http://web.archive.org/web/timemap/link/https://data.cdc.gov/d/abcd-1234'',
               Print ''error %s occurred using this url: %s ''
                 [AStr ''ConnectionError'',
                  AStr ''http://web.archive.org/web/timemap/link/https://data.cdc.gov/d/abcd-1234'']])"
    by (simp add: get_internet_archive_snapshots_def memento_url_def offline_env_def)
  from 1 3 4 5 show ?thesis by simp
qed
section \<open>The download index\<close>

lemma append_under_eq:
  "append_under k v d = Inr (AList.update k (idx_list d k @ [v]) d)"
  by (auto simp: append_under_def idx_list_def dict_defs split: option.splits)

lemma download_line_cases:
  assumes "download_line line d = Inr (d', evs)"
  shows "(download_record line = Inr None \<and> d' = d
          \<and> evs = [Log ERROR ''this downloaded file name %s cannot be mapped to a socrata_id?!? skipping it'' [AStr line]])
       \<or> (\<exists>e. download_record line = Inr (Some e)
            \<and> d' = AList.update (fst e) (idx_list d (fst e) @ [snd e]) d)"
  using assms
  by (auto simp: download_line_def append_under_eq and_then_def split: sum.splits option.splits)

lemma build_loop_invariant:
  assumes "build_loop f d evs = Inr (d', evs')" and "Q d"
    and step: "\<And>line d e. Q d \<Longrightarrow> download_record line = Inr (Some e)
       \<Longrightarrow> Q (AList.update (fst e) (idx_list d (fst e) @ [snd e]) d)"
  shows "Q d'"
  using assms(1,2)
proof (induction f arbitrary: d evs)
  case Nil
  then show ?case by simp
next
  case (Cons l f)
  show ?case
  proof (cases "rstrip l = []")
    case True
    with Cons.prems show ?thesis by simp
  next
    case False
    with Cons.prems obtain d1 e1 where dl: "download_line (rstrip l) d = Inr (d1, e1)"
      and rest: "build_loop f d1 (evs @ e1) = Inr (d', evs')"
      by (auto simp: and_then_def split: sum.splits)
    from download_line_cases [OF dl] Cons.prems(2) step have "Q d1" by auto
    from Cons.IH [OF rest this] show ?thesis .
  qed
qed

lemma fst_set_update: "fst ` set (AList.update k v d) = insert k (fst ` set d)"
  by (induction d) auto

section \<open>Malformed lines\<close>

text \<open>A line of the download list that does not match is logged and the loop goes on with
  the next line and the same index.\<close>

lemma unparseable_download_line_skipped:
  assumes "rstrip l \<noteq> []" and "download_record (rstrip l) = Inr None"
  shows "build_loop (l # f) d evs =
     build_loop f d (evs @ [Log ERROR
       ''this downloaded file name %s cannot be mapped to a socrata_id?!? skipping it''
       [AStr (rstrip l)]])"
  using assms by (simp add: download_line_def and_then_def)

text \<open>A line of the sitemaps file with one comma whose last path segment is no socrata id is
  logged and the loop goes on with the next line; nothing is appended.\<close>

lemma homepage_without_id_skipped:
  assumes "rstrip l \<noteq> []" and "split_on (CHR '','') (rstrip l) = [s, u]"
    and "path_name env u = Inr x" and "\<not> is_socrata_id x"
  shows "main_loop env idx (l # f) st =
     main_loop env idx f
       (skipped st [Log ERROR ''could not find a socrata id in %s ???'' [AStr u]] (None, u))"
  using assms by (simp add: get_next_homepage_url_line_def and_then_def)

text \<open>
  C6.  A line of the sitemaps file that has no comma (or more than one) is not skipped: the
  unpacking of \<^verbatim>\<open>line.split(',')\<close> raises \<^verbatim>\<open>ValueError\<close>, the main pass stops there
  whatever lines follow, and no results are assembled.
\<close>

theorem homepage_line_without_comma_aborts:
  "main_loop env idx (''https://data.cdc.gov/sitemap.xml'' # inputf) st = Inl ValueError
   \<and> assemble env idx (''https://data.cdc.gov/sitemap.xml'' # inputf) evs = Inl ValueError
   \<and> main_loop env idx (''a,b,c'' # inputf) st = Inl ValueError"
  by (simp add: assemble_def get_next_homepage_url_line_def rstrip_def is_space_def and_then_def)

section \<open>The leftover pass and the archive\<close>

lemma demo_no_dataset:
  "get_socrata_data demo_env ''zzzz-9999'' =
     Inr ([(''soc_name'', ''UNKN_SOC_NAME''), (''soc_homepage'', ''''), (''soc_description'', ''''),
           (''socrata_meta'', ''no dataset'')],
          [SocrataFind ''zzzz-9999'',
           Log INFO ''socrata call to %s returned this string to stdout: %s ''
             [AStr ''zzzz-9999'', AStr ''no dataset''],
           Log ERROR ''could not find matching socrata metadata for socrata id %s, but got this: %s??''
             [AStr ''zzzz-9999'', AStr ''no dataset''],
           Log DEBUG ''matched socrata id %s to socrata meta data: %s ''
             [AStr ''zzzz-9999'', AStr ''no dataset'']])"
  by (simp add: get_socrata_data_def socrata_data_of_def socrata_ret_def ret_defaults_def dict_defs
      demo_env_def demo_catalog_def)

text \<open>A status code other than 200 is logged with the text of the response.\<close>

lemma archive_not_found:
  "get_internet_archive_snapshots (demo_env\<lparr>requests_get := \<lambda>u. Response 404 ''not found''\<rparr>) [] =
     ([], [HttpGet ''http://web.archive.org/web/timemap/link/'',
           Log ERROR ''could not lookup IA snapshots using this url %s: %s''
             [AStr ''http://web.archive.org/web/timemap/link/'', AStr ''<Response [404]>'']])"
  by (simp add: get_internet_archive_snapshots_def memento_url_def demo_env_def
      str_of_response_def str_of_int_def str_of_nat.simps digit_char_def)

lemma demo_archive_empty:
  "get_internet_archive_snapshots demo_env '''' =
     (''snapshots of http://web.archive.org/web/timemap/link/'',
      [HttpGet ''http://web.archive.org/web/timemap/link/''])"
  by (simp add: get_internet_archive_snapshots_def memento_url_def demo_env_def)

text \<open>
  C3.  A leftover whose catalog answer has no homepage: the key \<^verbatim>\<open>soc_homepage\<close> is
  always in \<^verbatim>\<open>values\<close>, so the test at line 199 holds, the archive is asked about the empty
  homepage (the request \<^verbatim>\<open>http://web.archive.org/web/timemap/link/\<close> is made) and what it
  answers becomes \<^verbatim>\<open>internet_archive_snapshots\<close>; the homepage stays empty.
\<close>

theorem leftover_without_homepage_asks_archive:
  "process_leftover_download_files demo_env
     [(''zzzz-9999'', [[(''download_filename'', ''zzzz-9999_2.5_x.csv''),
                        (''download_ts'', ''1970-01-01 00:00:02 UTC'')]])] [] =
   Inr ([[(''socrata_id'', ''zzzz-9999''), (''homepage'', ''''), (''soc_name'', ''UNKN_SOC_NAME''),
          (''soc_homepage'', ''''), (''soc_description'', ''''), (''socrata_meta'', ''no dataset''),
          (''internet_archive_snapshots'', ''snapshots of http://web.archive.org/web/timemap/link/''),
          (''dataset_snapshot_filename'', ''zzzz-9999_2.5_x.csv''),
          (''dataset_snapshot_dl_ts'', ''1970-01-01 00:00:02 UTC'')]],
        [Log ERROR ''download file %s not in dataset home page file. going to process what we can still get now.''
           [AStr ''zzzz-9999''],
         SocrataFind ''zzzz-9999'',
         Log INFO ''socrata call to %s returned this string to stdout: %s ''
           [AStr ''zzzz-9999'', AStr ''no dataset''],
         Log ERROR ''could not find matching socrata metadata for socrata id %s, but got this: %s??''
           [AStr ''zzzz-9999'', AStr ''no dataset''],
         Log DEBUG ''matched socrata id %s to socrata meta data: %s ''
           [AStr ''zzzz-9999'', AStr ''no dataset''],
         HttpGet ''http://web.archive.org/web/timemap/link/''])"
  by (simp add: process_leftover_download_files_def leftover_def leftover_snapshots_def
      leftover_start_def demo_no_dataset demo_archive_empty dict_defs dict_update_def)

section \<open>The keys of the download index\<close>

lemma ab_match:
  "re_search download_pattern ''a-b_2.5_x'' = Some [(''timestamp'', ''2.5''), (''socrata_id'', ''a-b'')]"
  by (simp add: rx_defs upt_rec)

lemma ab_float: "py_float ''2.5'' = Inr (Some (5629499534213120, - 51))"
  by (simp add: num_defs)

lemma ab_seconds: "utcfromtimestamp (Some (5629499534213120, - 51)) = Inr 2"
  by (simp add: num_defs)

lemma ab_strftime: "strftime_utc 2 = ''1970-01-01 00:00:02 UTC''"
  by (simp add: date_defs)

lemma ab_ts: "download_ts_of ''2.5'' = Inr ''1970-01-01 00:00:02 UTC''"
  by (simp add: download_ts_of_def and_then_def ab_float ab_seconds ab_strftime)

lemma ab_build:
  "build_download_file_dict [''a-b_2.5_x''] =
     Inr ([(''a-b'', [[(''download_filename'', ''a-b_2.5_x''),
                      (''download_ts'', ''1970-01-01 00:00:02 UTC'')]])], [])"
  by (simp add: build_download_file_dict_def rstrip_def is_space_def download_line_def
      download_record_def ab_match group_def ab_ts and_then_def append_under_def has_key_def)

text \<open>
  C8, as stated, fails: the line \<^verbatim>\<open>a-b_2.5_x\<close> is accepted and its key \<^verbatim>\<open>a-b\<close> is not
  a valid identifier.
\<close>

theorem index_key_not_valid_counterexample:
  "build_download_file_dict [''a-b_2.5_x''] =
     Inr ([(''a-b'', [[(''download_filename'', ''a-b_2.5_x''),
                      (''download_ts'', ''1970-01-01 00:00:02 UTC'')]])], [])
   \<and> \<not> is_socrata_id ''a-b''"
  by (simp add: ab_build is_socrata_id_def rx_defs)

text \<open>
  C8, amended.  Every key of the download index is one or more alphanumeric characters, a
  hyphen, and one or more alphanumeric characters: the shape the builder's own pattern
  asks for, which does not fix the two lengths at four.
\<close>

theorem index_keys_loose:
  assumes "build_download_file_dict f = Inr (idx, evs)"
  shows "\<forall>k \<in> fst ` set idx. loose_id k"
  using assms unfolding build_download_file_dict_def
  by (rule build_loop_invariant) (auto simp: fst_set_update dest: download_record_SomeD)

theorem index_keys_loose_witness:
  "build_download_file_dict [''a-b_2.5_x''] =
     Inr ([(''a-b'', [[(''download_filename'', ''a-b_2.5_x''),
                      (''download_ts'', ''1970-01-01 00:00:02 UTC'')]])], [])
   \<and> loose_id ''a-b''"
  using index_keys_loose [OF ab_build] ab_build by simp

section \<open>The report\<close>

lemma collect_map:
  "(\<And>x. x \<in> set xs \<Longrightarrow> f x = Inr (g x)) \<Longrightarrow> collect f xs = Inr (map g xs)"
  by (induction xs) (auto simp: and_then_def)

lemma insort_key_decorated:
  "\<forall>p\<in>set ys. fst p = g (snd p) \<Longrightarrow>
     map snd (insort_key fst (g x, x) ys) = insort_key g x (map snd ys)"
  by (induction ys) auto

lemma set_insort_decorated:
  "\<forall>p\<in>set ys. fst p = g (snd p) \<Longrightarrow> \<forall>p\<in>set (insort_key fst (g x, x) ys). fst p = g (snd p)"
  by (auto simp: set_insort_key)

lemma sort_key_decorated:
  "map snd (sort_key fst (zip (map g l) l)) = sort_key g l
   \<and> (\<forall>p\<in>set (sort_key fst (zip (map g l) l)). fst p = g (snd p))"
  by (induction l) (auto simp: insort_key_decorated set_insort_key)

lemma getitem_field: "has_key r k \<Longrightarrow> getitem r k = Inr (field r k)"
  by (auto simp: getitem_def has_key_def field_def)

lemma sorted_datasets_eq:
  assumes "\<And>r. r \<in> set l \<Longrightarrow> has_key r ''socrata_id''"
  shows "sorted_datasets l = Inr (sort_key (\<lambda>r. field r ''socrata_id'') l)"
proof -
  have "collect (\<lambda>x. getitem x ''socrata_id'') l = Inr (map (\<lambda>r. field r ''socrata_id'') l)"
    by (rule collect_map) (simp add: getitem_field assms)
  then show ?thesis
    by (simp add: sorted_datasets_def and_then_def sort_key_decorated)
qed

lemma dataset_row_eq: "has_fields ds \<Longrightarrow> dataset_row name ds = Inr (row_of (name, ds))"
  by (simp add: has_fields_def output_fields_def dataset_row_def row_of_def getitem_field and_then_def)

lemma has_fields_id: "has_fields r \<Longrightarrow> has_key r ''socrata_id''"
  by (simp add: has_fields_def output_fields_def)

lemma name_rows_eq:
  assumes "has_key rd name" and "\<And>r. r \<in> set (idx_list rd name) \<Longrightarrow> has_fields r"
  shows "name_rows rd name =
    Inr (map row_of (map (Pair name) (sort_key (\<lambda>r. field r ''socrata_id'') (idx_list rd name))))"
proof -
  from assms(1) have g: "getitem rd name = Inr (idx_list rd name)"
    by (auto simp: getitem_def has_key_def idx_list_def)
  have s: "sorted_datasets (idx_list rd name) =
      Inr (sort_key (\<lambda>r. field r ''socrata_id'') (idx_list rd name))"
    by (rule sorted_datasets_eq) (simp add: assms(2) has_fields_id)
  have c: "collect (dataset_row name) (sort_key (\<lambda>r. field r ''socrata_id'') (idx_list rd name)) =
      Inr (map (\<lambda>r. row_of (name, r)) (sort_key (\<lambda>r. field r ''socrata_id'') (idx_list rd name)))"
    by (rule collect_map) (simp add: dataset_row_eq assms(2))
  show ?thesis by (simp add: name_rows_def g s c and_then_def comp_def)
qed


lemma idx_list_mem:
  assumes "r \<in> set (idx_list rd k)"
  shows "r \<in> set (all_records rd)"
proof (cases "map_of rd k")
  case None
  with assms show ?thesis by (simp add: idx_list_def)
next
  case (Some l)
  then have "(k, l) \<in> set rd" by (rule map_of_SomeD)
  moreover from assms Some have "r \<in> set l" by (simp add: idx_list_def)
  ultimately show ?thesis by (force simp: all_records_def)
qed

lemma has_key_fst: "has_key rd k \<longleftrightarrow> k \<in> fst ` set rd"
  by (auto simp: has_key_def map_of_eq_None_iff)

lemma data_rows_eq:
  assumes "\<And>r. r \<in> set (all_records rd) \<Longrightarrow> has_fields r"
  shows "data_rows rd = Inr (map row_of (sorted_rows rd))"
proof -
  have "collect (name_rows rd) (sort (map fst rd)) =
      Inr (map (\<lambda>name. map row_of (map (Pair name)
             (sort_key (\<lambda>r. field r ''socrata_id'') (idx_list rd name)))) (sort (map fst rd)))"
  proof (rule collect_map)
    fix x assume "x \<in> set (sort (map fst rd))"
    then have "has_key rd x" by (simp add: has_key_fst)
    then show "name_rows rd x = Inr (map row_of (map (Pair x)
             (sort_key (\<lambda>r. field r ''socrata_id'') (idx_list rd x))))"
      by (rule name_rows_eq) (simp add: assms idx_list_mem)
  qed
  then show ?thesis
    by (simp add: data_rows_def and_then_def sorted_rows_def map_concat comp_def)
qed

lemma mset_concat_sort:
  "mset (concat (map F (sort ks))) = mset (concat (map F ks))"
proof -
  have "mset (concat (map F xs)) = (\<Sum>k\<in>#mset xs. mset (F k))" for xs
    by (induction xs) auto
  then show ?thesis by simp
qed

lemma idx_list_distinct:
  "distinct (map fst rd) \<Longrightarrow> kv \<in> set rd \<Longrightarrow> idx_list rd (fst kv) = snd kv"
  by (cases kv) (simp add: idx_list_def)

lemma mset_sorted_rows:
  assumes "distinct (map fst rd)"
  shows "mset (sorted_rows rd) = mset (named_records rd)"
proof -
  have "mset (sorted_rows rd) =
      mset (concat (map (\<lambda>name. map (Pair name)
        (sort_key (\<lambda>r. field r ''socrata_id'') (idx_list rd name))) (map fst rd)))"
    unfolding sorted_rows_def by (rule mset_concat_sort)
  also have "map (\<lambda>name. map (Pair name)
        (sort_key (\<lambda>r. field r ''socrata_id'') (idx_list rd name))) (map fst rd) =
      map (\<lambda>kv. map (Pair (fst kv)) (sort_key (\<lambda>r. field r ''socrata_id'') (snd kv))) rd"
    using assms by (simp add: idx_list_distinct)
  also have "mset (concat (map (\<lambda>kv. map (Pair (fst kv))
        (sort_key (\<lambda>r. field r ''socrata_id'') (snd kv))) xs)) =
      mset (concat (map (\<lambda>kv. map (Pair (fst kv)) (snd kv)) xs))" for xs :: "(string \<times> pydict list) list"
    by (induction xs) auto
  finally show ?thesis by (simp add: named_records_def)
qed

lemma sorted_wrt_concat_map:
  assumes "sorted_wrt (<) ks" and "\<And>k. sorted_wrt R (G k)"
    and "\<And>k k' x y. k < k' \<Longrightarrow> x \<in> set (G k) \<Longrightarrow> y \<in> set (G k') \<Longrightarrow> R x y"
  shows "sorted_wrt R (concat (map G ks))"
  using assms(1)
proof (induction ks)
  case Nil
  then show ?case by simp
next
  case (Cons k ks)
  then show ?case by (auto simp: sorted_wrt_append assms(2) intro: assms(3))
qed

lemma sorted_sorted_rows:
  assumes "distinct (map fst rd)"
  shows "sorted_wrt row_order (sorted_rows rd)"
  unfolding sorted_rows_def
proof (rule sorted_wrt_concat_map)
  show "sorted_wrt (<) (sort (map fst rd))"
    using assms by (simp add: strict_sorted_iff)
next
  fix k
  have "sorted (map (\<lambda>r. field r ''socrata_id'') (sort_key (\<lambda>r. field r ''socrata_id'') (idx_list rd k)))"
    by (rule sorted_sort_key)
  then show "sorted_wrt row_order (map (Pair k) (sort_key (\<lambda>r. field r ''socrata_id'') (idx_list rd k)))"
    by (simp add: sorted_wrt_map row_order_def sorted_map)
next
  fix k k' :: string and x y
  assume "k < k'" "x \<in> set (map (Pair k) (sort_key (\<lambda>r. field r ''socrata_id'') (idx_list rd k)))"
    "y \<in> set (map (Pair k') (sort_key (\<lambda>r. field r ''socrata_id'') (idx_list rd k')))"
  then show "row_order x y" by (auto simp: row_order_def)
qed

text \<open>
  C4.  For a results map (no name twice, as in a dictionary) whose records have the eight
  fields, the report is the preamble lines, each a row of one column, then the header row of
  eight columns, then one row per record: the rows are the records with their names, as a
  multiset, in ascending order of name and, under one name, in ascending order of socrata
  id.  The report is a function of the results map alone.
\<close>

theorem report_ordered:
  assumes "distinct (map fst rd)" and "\<forall>r \<in> set (all_records rd). has_fields r"
  shows "\<exists>ps. report rd = Inr (map (\<lambda>hl. [hl]) header_lines @ [header_row] @ map row_of ps)
           \<and> mset ps = mset (named_records rd) \<and> sorted_wrt row_order ps
           \<and> length header_row = 8 \<and> list_all (\<lambda>p. length (row_of p) = 8) ps"
proof -
  from assms(2) have "data_rows rd = Inr (map row_of (sorted_rows rd))"
    by (intro data_rows_eq) simp
  then have "report rd = Inr (map (\<lambda>hl. [hl]) header_lines @ [header_row] @ map row_of (sorted_rows rd))"
    by (simp add: report_def and_then_def)
  moreover have "length header_row = 8" by (simp add: header_row_def)
  moreover have "list_all (\<lambda>p. length (row_of p) = 8) (sorted_rows rd)"
    by (simp add: list_all_iff row_of_def)
  ultimately show ?thesis
    using mset_sorted_rows [OF assms(1)] sorted_sorted_rows [OF assms(1)] by blast
qed

lemma demo_data_rows:
  "data_rows demo_results =
     Inr [[''Births'', ''mmmm-0003'', '''', '''', ''https://data.cdc.gov/d/mmmm-0003'', '''', '''', ''''],
          [''Deaths'', ''aaaa-0001'', '''', '''', ''https://data.cdc.gov/d/aaaa-0001'', '''', '''', ''''],
          [''Deaths'', ''zzzz-0002'', '''', '''', ''https://data.cdc.gov/d/zzzz-0002'', '''', '''', '''']]"
  by (simp add: data_rows_def name_rows_def sorted_datasets_def dataset_row_def demo_results_def
      demo_record_def dict_defs)

theorem report_ordered_witness:
  "(\<exists>ps. report demo_results = Inr (map (\<lambda>hl. [hl]) header_lines @ [header_row] @ map row_of ps)
      \<and> mset ps = mset (named_records demo_results) \<and> sorted_wrt row_order ps
      \<and> length header_row = 8 \<and> list_all (\<lambda>p. length (row_of p) = 8) ps)
   \<and> report demo_results =
       Inr (map (\<lambda>hl. [hl]) header_lines @ [header_row] @
         [[''Births'', ''mmmm-0003'', '''', '''', ''https://data.cdc.gov/d/mmmm-0003'', '''', '''', ''''],
          [''Deaths'', ''aaaa-0001'', '''', '''', ''https://data.cdc.gov/d/aaaa-0001'', '''', '''', ''''],
          [''Deaths'', ''zzzz-0002'', '''', '''', ''https://data.cdc.gov/d/zzzz-0002'', '''', '''', '''']])"
  using report_ordered [of demo_results]
  by (simp add: report_def demo_data_rows and_then_def)
     (simp add: demo_results_def demo_record_def all_records_def has_fields_def output_fields_def
        has_key_def)

section \<open>The records the engine assembles\<close>

lemma has_key_update: "has_key (AList.update k v d) k' \<longleftrightarrow> k' = k \<or> has_key d k'"
  by (simp add: has_key_def update_conv')

lemma set_update_cases:
  "kv \<in> set (AList.update k v d) \<Longrightarrow> kv = (k, v) \<or> kv \<in> set d"
  by (induction d) (auto split: if_splits)

lemma mset_all_records_update:
  "mset (all_records (AList.update k (idx_list d k @ [r]) d)) = mset (all_records d) + {#r#}"
  by (induction d) (auto simp: all_records_def idx_list_def)

lemma get_socrata_data_shape:
  assumes "find_socrata_dataset_by_id env i = Inr reply"
  shows "\<exists>a b c d evs. get_socrata_data env i =
     Inr ([(''soc_name'', a), (''soc_homepage'', b), (''soc_description'', c), (''socrata_meta'', d)], evs)"
  using assms
  by (auto simp: get_socrata_data_def socrata_data_of_def socrata_ret_def ret_defaults_def dict_defs
      split: option.splits)

lemma homepage_values_shape:
  assumes "find_socrata_dataset_by_id env i = Inr reply"
  shows "\<exists>s a b c d evs. homepage_values env i u =
     Inr ([(''socrata_id'', i), (''homepage'', u), (''internet_archive_snapshots'', s),
           (''soc_name'', a), (''soc_homepage'', b), (''soc_description'', c),
           (''socrata_meta'', d)], evs)"
proof -
  from get_socrata_data_shape [OF assms] obtain a b c d evs where
    "get_socrata_data env i =
     Inr ([(''soc_name'', a), (''soc_homepage'', b), (''soc_description'', c), (''socrata_meta'', d)], evs)"
    by blast
  then show ?thesis by (simp add: homepage_values_def and_then_def dict_update_def)
qed

lemma snapshot_loop_map_of:
  assumes "snapshot_loop recs vals = Inr v"
  shows "map_of v =
    (if recs = [] then map_of vals
     else (map_of vals)(''dataset_snapshot_filename'' \<mapsto> field (last recs) ''download_filename'',
                          ''dataset_snapshot_dl_ts'' \<mapsto> field (last recs) ''download_ts''))"
  using assms
proof (induction recs arbitrary: vals)
  case Nil
  then show ?case by simp
next
  case (Cons d ds)
  from Cons.prems obtain f t where f: "map_of d ''download_filename'' = Some f"
    and t: "map_of d ''download_ts'' = Some t"
    and rest: "snapshot_loop ds (AList.update ''dataset_snapshot_dl_ts'' t
           (AList.update ''dataset_snapshot_filename'' f vals)) = Inr v"
    by (auto simp: and_then_def getitem_def split: sum.splits option.splits)
  from Cons.IH [OF rest] f t show ?case
    by (auto simp: update_conv' field_def fun_upd_twist)
qed

lemma snapshot_loop_total:
  assumes "list_all (\<lambda>d. has_key d ''download_filename'' \<and> has_key d ''download_ts'') recs"
  shows "\<exists>v. snapshot_loop recs vals = Inr v"
  using assms
  by (induction recs arbitrary: vals) (auto simp: and_then_def getitem_def has_key_def)

lemma wf_index_lookup:
  assumes "wf_index idx" and "map_of idx i = Some recs"
  shows "recs \<noteq> [] \<and> list_all (\<lambda>d. has_key d ''download_filename'' \<and> has_key d ''download_ts'') recs"
proof -
  from assms(2) have "(i, recs) \<in> set idx" by (rule map_of_SomeD)
  with assms(1) show ?thesis by (auto simp: wf_index_def list_all_iff)
qed

lemma match_download_map_of:
  assumes "wf_index idx"
  shows "\<exists>v e. match_download idx i u vals = Inr (v, e)
     \<and> map_of v = (map_of vals)(''dataset_snapshot_filename'' \<mapsto> snapshot_filename idx i,
                                ''dataset_snapshot_dl_ts'' \<mapsto> snapshot_dl_ts idx i)"
proof (cases "map_of idx i")
  case None
  then show ?thesis
    by (simp add: match_download_def has_key_def update_conv' snapshot_filename_def
        snapshot_dl_ts_def)
next
  case (Some recs)
  from wf_index_lookup [OF assms Some] have ne: "recs \<noteq> []"
    and keys: "list_all (\<lambda>d. has_key d ''download_filename'' \<and> has_key d ''download_ts'') recs"
    by simp_all
  from snapshot_loop_total [OF keys] obtain v where v: "snapshot_loop recs vals = Inr v" by blast
  from snapshot_loop_map_of [OF v] ne Some v show ?thesis
    by (simp add: match_download_def has_key_def getitem_def and_then_def snapshot_filename_def
        snapshot_dl_ts_def)
qed

lemma good_recordI:
  assumes "map_of v = (map_of vals)(''dataset_snapshot_filename'' \<mapsto> f, ''dataset_snapshot_dl_ts'' \<mapsto> t)"
    and "map_of vals ''socrata_id'' = Some i"
    and "list_all (has_key vals) [''homepage'', ''internet_archive_snapshots'', ''soc_name'',
           ''soc_description'', ''socrata_meta'']"
    and "f = snapshot_filename idx i" and "t = snapshot_dl_ts idx i"
  shows "good_record idx i v"
  using assms by (simp add: good_record_def has_fields_def output_fields_def has_key_def field_def)

lemma main_step_raises:
  "find_socrata_dataset_by_id env i = Inl e \<Longrightarrow> main_step env idx i u st = Inl e"
  by (simp add: main_step_def homepage_values_def get_socrata_data_raises and_then_def)

lemma leftover_raises:
  "find_socrata_dataset_by_id env i = Inl e \<Longrightarrow> leftover env idx i = Inl e"
  by (simp add: leftover_def get_socrata_data_raises and_then_def)

lemma main_step_record:
  assumes "wf_index idx" and "find_socrata_dataset_by_id env i = Inr reply"
  shows "\<exists>r st'. main_step env idx i u st = Inr st'
     \<and> results_dict st' =
         AList.update (field r ''soc_name'') (idx_list (results_dict st) (field r ''soc_name'') @ [r])
           (results_dict st)
     \<and> download_files_processed st' =
         (if has_key idx i then AList.update i True (download_files_processed st)
          else download_files_processed st)
     \<and> good_record idx i r \<and> field r ''homepage'' = u"
proof -
  from homepage_values_shape [OF assms(2), of u] obtain s a b c d e1 where
    hv: "homepage_values env i u =
     Inr ([(''socrata_id'', i), (''homepage'', u), (''internet_archive_snapshots'', s),
           (''soc_name'', a), (''soc_homepage'', b), (''soc_description'', c),
           (''socrata_meta'', d)], e1)" by blast
  define vals where "vals = [(''socrata_id'', i), (''homepage'', u), (''internet_archive_snapshots'', s),
           (''soc_name'', a), (''soc_homepage'', b), (''soc_description'', c),
           (''socrata_meta'', d)]"
  from match_download_map_of [OF assms(1), of i u vals] obtain v e2 where
    md: "match_download idx i u vals = Inr (v, e2)"
    and mv: "map_of v = (map_of vals)(''dataset_snapshot_filename'' \<mapsto> snapshot_filename idx i,
                                ''dataset_snapshot_dl_ts'' \<mapsto> snapshot_dl_ts idx i)" by blast
  have good: "good_record idx i v"
    by (rule good_recordI [OF mv]) (simp_all add: vals_def has_key_def)
  from mv have name: "map_of v ''soc_name'' = Some a" and hp: "field v ''homepage'' = u"
    by (simp_all add: vals_def field_def)
  from name have fa: "field v ''soc_name'' = a" by (simp add: field_def)
  from name have "append_values v (results_dict st) =
      Inr (AList.update a (idx_list (results_dict st) a @ [v]) (results_dict st))"
    by (simp add: append_values_def getitem_def and_then_def append_under_eq)
  with hv md have "main_step env idx i u st =
      Inr \<lparr>results_dict = AList.update a (idx_list (results_dict st) a @ [v]) (results_dict st),
           download_files_processed =
             (if has_key idx i then AList.update i True (download_files_processed st)
              else download_files_processed st),
           events = events st @ e1 @ e2 @ [Sleep 10]\<rparr>"
    by (simp add: main_step_def and_then_def vals_def)
  with good hp fa show ?thesis
    by (intro exI [of _ v]) simp
qed

lemma leftover_record:
  assumes "wf_index idx" and "has_key idx i" and "find_socrata_dataset_by_id env i = Inr reply"
  shows "\<exists>r e. leftover env idx i = Inr (r, e) \<and> good_record idx i r
     \<and> field r ''homepage'' = field r ''soc_homepage''"
proof -
  from get_socrata_data_shape [OF assms(3)] obtain a b c d e1 where
    gs: "get_socrata_data env i =
     Inr ([(''soc_name'', a), (''soc_homepage'', b), (''soc_description'', c), (''socrata_meta'', d)], e1)"
    by blast
  define vals where "vals = [(''socrata_id'', i), (''homepage'', b), (''soc_name'', a),
     (''soc_homepage'', b), (''soc_description'', c), (''socrata_meta'', d),
     (''internet_archive_snapshots'', fst (get_internet_archive_snapshots env b))]"
  have ls: "leftover_snapshots env (leftover_start i
      [(''soc_name'', a), (''soc_homepage'', b), (''soc_description'', c), (''socrata_meta'', d)]) =
      Inr (vals, snd (get_internet_archive_snapshots env b))"
    by (simp add: leftover_snapshots_def leftover_start_def dict_update_def has_key_def getitem_def
        and_then_def vals_def)
  from assms(2) obtain recs where recs: "map_of idx i = Some recs"
    by (auto simp: has_key_def)
  from wf_index_lookup [OF assms(1) recs] have ne: "recs \<noteq> []"
    and keys: "list_all (\<lambda>d. has_key d ''download_filename'' \<and> has_key d ''download_ts'') recs"
    by simp_all
  from snapshot_loop_total [OF keys] obtain v where v: "snapshot_loop recs vals = Inr v" by blast
  from snapshot_loop_map_of [OF v] ne recs have mv:
    "map_of v = (map_of vals)(''dataset_snapshot_filename'' \<mapsto> snapshot_filename idx i,
                              ''dataset_snapshot_dl_ts'' \<mapsto> snapshot_dl_ts idx i)"
    by (simp add: snapshot_filename_def snapshot_dl_ts_def)
  have good: "good_record idx i v"
    by (rule good_recordI [OF mv]) (simp_all add: vals_def has_key_def)
  from mv have "field v ''homepage'' = field v ''soc_homepage''"
    by (simp add: vals_def field_def)
  with gs ls recs v good show ?thesis
    by (simp add: leftover_def and_then_def getitem_def)
qed

lemma idx_list_set:
  assumes "x \<in> set (idx_list rd k)"
  shows "\<exists>l. (k, l) \<in> set rd \<and> x \<in> set l"
proof (cases "map_of rd k")
  case None
  with assms show ?thesis by (simp add: idx_list_def)
next
  case (Some l)
  then have "(k, l) \<in> set rd" by (rule map_of_SomeD)
  with assms Some show ?thesis by (auto simp: idx_list_def)
qed

lemma wf_results_update:
  assumes "wf_results rd" and "map_of r ''soc_name'' = Some a"
  shows "wf_results (AList.update a (idx_list rd a @ [r]) rd)"
proof -
  have "stored_under_name (AList.update a (idx_list rd a @ [r]) rd)"
    unfolding stored_under_name_def list_all_iff
  proof (intro ballI)
    fix kv x
    assume kv: "kv \<in> set (AList.update a (idx_list rd a @ [r]) rd)" and x: "x \<in> set (snd kv)"
    from set_update_cases [OF kv] show "map_of x ''soc_name'' = Some (fst kv)"
    proof
      assume new: "kv = (a, idx_list rd a @ [r])"
      with x have "x = r \<or> x \<in> set (idx_list rd a)" by auto
      then show ?thesis
      proof
        assume "x = r" with assms(2) new show ?thesis by simp
      next
        assume "x \<in> set (idx_list rd a)"
        from idx_list_set [OF this] obtain l where "(a, l) \<in> set rd" "x \<in> set l" by blast
        with assms(1) new show ?thesis
          by (auto simp: wf_results_def stored_under_name_def list_all_iff)
      qed
    next
      assume "kv \<in> set rd"
      with assms(1) x show ?thesis
        by (auto simp: wf_results_def stored_under_name_def list_all_iff)
    qed
  qed
  with assms(1) show ?thesis by (simp add: wf_results_def distinct_update)
qed

lemma good_record_name: "good_record idx i r \<Longrightarrow> map_of r ''soc_name'' = Some (field r ''soc_name'')"
  by (auto simp: good_record_def has_fields_def output_fields_def has_key_def field_def)

lemma not_socrata_id_Nil: "\<not> is_socrata_id []"
  by (simp add: is_socrata_id_def re_match_def socrata_id_pattern_def)

lemma get_next_None: "get_next_homepage_url_line env l = Inr (None, e) \<Longrightarrow> rstrip l = []"
  by (auto simp: get_next_homepage_url_line_def and_then_def split: if_splits list.splits sum.splits)

lemma get_next_Some:
  "get_next_homepage_url_line env l = Inr (Some p, e) \<Longrightarrow>
     rstrip l \<noteq> [] \<and> (\<forall>j. fst p = Some j \<longrightarrow> is_socrata_id j)"
  by (auto simp: get_next_homepage_url_line_def and_then_def split: if_splits list.splits sum.splits)

lemma homepage_ids_Nil: "homepage_ids env [] = []"
  by (simp add: homepage_ids_def read_lines_def)

lemma homepage_ids_Cons:
  "homepage_ids env (l # f) =
     (if rstrip l = [] then []
      else (case entry_id env l of None \<Rightarrow> [] | Some i \<Rightarrow> [i]) @ homepage_ids env f)"
  by (simp add: homepage_ids_def read_lines_def)

lemma main_loop_records:
  assumes "main_loop env idx f st = Inr st'" and "wf_index idx"
  shows "\<exists>rs. list_all2 (good_record idx) (homepage_ids env f) rs
     \<and> mset (all_records (results_dict st')) = mset (all_records (results_dict st)) + mset rs
     \<and> (wf_results (results_dict st) \<longrightarrow> wf_results (results_dict st'))
     \<and> (\<forall>k. has_key (download_files_processed st') k \<longleftrightarrow>
            has_key (download_files_processed st) k
            \<or> (k \<in> set (homepage_ids env f) \<and> has_key idx k))"
  using assms(1)
proof (induction f arbitrary: st)
  case Nil
  then show ?case by (auto simp: homepage_ids_Nil finished_def)
next
  case (Cons l f)
  from Cons.prems obtain r e where gn: "get_next_homepage_url_line env l = Inr (r, e)"
    by (auto simp: and_then_def split: sum.splits)
  show ?case
  proof (cases r)
    case None
    with gn have "rstrip l = []" by (simp add: get_next_None)
    moreover from Cons.prems gn None have "st' = finished st e" by (simp add: and_then_def)
    ultimately show ?thesis by (auto simp: homepage_ids_Cons finished_def)
  next
    case (Some p)
    with gn get_next_Some [of env l p e] have ne: "rstrip l \<noteq> []"
      and valid: "\<forall>j. fst p = Some j \<longrightarrow> is_socrata_id j" by simp_all
    show ?thesis
    proof (cases "fst p")
      case None
      with gn Some have eid: "entry_id env l = None" by (simp add: entry_id_def)
      from Cons.prems gn Some None have "main_loop env idx f (skipped st e p) = Inr st'"
        by (simp add: and_then_def)
      from Cons.IH [OF this] eid ne show ?thesis
        by (simp add: homepage_ids_Cons skipped_def)
    next
      case (Some j)
      with valid have "is_socrata_id j" by simp
      then have jne: "j \<noteq> []" using not_socrata_id_Nil by auto
      from gn \<open>r = Some p\<close> Some have eid: "entry_id env l = Some j" by (simp add: entry_id_def)
      define st0 where "st0 = st\<lparr>events := events st @ e @ looking_at (Some p)\<rparr>"
      have "\<exists>reply. find_socrata_dataset_by_id env j = Inr reply"
      proof (cases "find_socrata_dataset_by_id env j")
        case (Inl err)
        from main_step_raises [OF this, of idx "snd p" st0] Cons.prems gn \<open>r = Some p\<close> Some jne
        show ?thesis by (simp add: and_then_def st0_def)
      next
        case (Inr reply)
        then show ?thesis by blast
      qed
      then obtain reply where "find_socrata_dataset_by_id env j = Inr reply" ..
      from main_step_record [OF assms(2) this, of "snd p" st0] obtain r0 st1 where
        ms: "main_step env idx j (snd p) st0 = Inr st1"
        and res: "results_dict st1 = AList.update (field r0 ''soc_name'')
            (idx_list (results_dict st0) (field r0 ''soc_name'') @ [r0]) (results_dict st0)"
        and pr: "download_files_processed st1 =
            (if has_key idx j then AList.update j True (download_files_processed st0)
             else download_files_processed st0)"
        and good: "good_record idx j r0" by blast
      from Cons.prems gn \<open>r = Some p\<close> Some jne ms have "main_loop env idx f st1 = Inr st'"
        by (simp add: and_then_def st0_def)
      from Cons.IH [OF this] obtain rs where
        rs: "list_all2 (good_record idx) (homepage_ids env f) rs"
        and ms': "mset (all_records (results_dict st')) = mset (all_records (results_dict st1)) + mset rs"
        and wf': "wf_results (results_dict st1) \<longrightarrow> wf_results (results_dict st')"
        and pr': "\<forall>k. has_key (download_files_processed st') k \<longleftrightarrow>
            has_key (download_files_processed st1) k
            \<or> (k \<in> set (homepage_ids env f) \<and> has_key idx k)" by blast
      have r0: "results_dict st0 = results_dict st"
        and p0: "download_files_processed st0 = download_files_processed st"
        by (simp_all add: st0_def)
      have 1: "list_all2 (good_record idx) (homepage_ids env (l # f)) (r0 # rs)"
        using rs good eid ne by (simp add: homepage_ids_Cons)
      have 2: "mset (all_records (results_dict st')) =
          mset (all_records (results_dict st)) + mset (r0 # rs)"
        using ms' res r0 by (simp add: mset_all_records_update)
      have 3: "wf_results (results_dict st) \<longrightarrow> wf_results (results_dict st')"
        using wf' res r0 wf_results_update [OF _ good_record_name [OF good]] by auto
      have 4: "\<forall>k. has_key (download_files_processed st') k \<longleftrightarrow>
            has_key (download_files_processed st) k
            \<or> (k \<in> set (homepage_ids env (l # f)) \<and> has_key idx k)"
        using pr' pr p0 eid ne by (auto simp: homepage_ids_Cons has_key_update)
      from 1 2 3 4 show ?thesis by blast
    qed
  qed
qed

text \<open>The leftover pass returns a record for each key the main pass did not match, or it
  stops on what the catalog raised for such a key; it raises nothing of its own.\<close>

lemma leftover_loop_records:
  assumes "wf_index idx" and "set ks \<subseteq> fst ` set idx"
  shows "(\<exists>lo e. leftover_loop env idx processed ks = Inr (lo, e)
       \<and> list_all2 (good_record idx) (filter (\<lambda>k. \<not> has_key processed k) ks) lo
       \<and> list_all (\<lambda>r. field r ''homepage'' = field r ''soc_homepage'') lo)
     \<or> (\<exists>k err. k \<in> set ks \<and> \<not> has_key processed k
           \<and> find_socrata_dataset_by_id env k = Inl err
           \<and> leftover_loop env idx processed ks = Inl err)"
  using assms(2)
proof (induction ks)
  case Nil
  then show ?case by simp
next
  case (Cons k ks)
  then have hk: "has_key idx k" and sub: "set ks \<subseteq> fst ` set idx"
    by (simp_all add: has_key_fst)
  note IH = Cons.IH [OF sub]
  show ?case
  proof (cases "has_key processed k")
    case True
    with IH show ?thesis by auto
  next
    case False
    show ?thesis
    proof (cases "find_socrata_dataset_by_id env k")
      case (Inl err)
      from leftover_raises [OF this, of idx] False Inl show ?thesis
        by (auto simp: and_then_def)
    next
      case (Inr reply)
      from leftover_record [OF assms(1) hk Inr] obtain r e1 where
        lr: "leftover env idx k = Inr (r, e1)" and good: "good_record idx k r"
        and hp: "field r ''homepage'' = field r ''soc_homepage''" by blast
      from IH show ?thesis
      proof
        assume "\<exists>lo e. leftover_loop env idx processed ks = Inr (lo, e)
           \<and> list_all2 (good_record idx) (filter (\<lambda>k. \<not> has_key processed k) ks) lo
           \<and> list_all (\<lambda>r. field r ''homepage'' = field r ''soc_homepage'') lo"
        with lr good hp False show ?thesis by (auto simp: and_then_def)
      next
        assume "\<exists>k err. k \<in> set ks \<and> \<not> has_key processed k
           \<and> find_socrata_dataset_by_id env k = Inl err
           \<and> leftover_loop env idx processed ks = Inl err"
        then obtain k' err where "k' \<in> set ks" "\<not> has_key processed k'"
          "find_socrata_dataset_by_id env k' = Inl err"
          "leftover_loop env idx processed ks = Inl err" by blast
        with lr False have "k' \<in> set (k # ks) \<and> \<not> has_key processed k'
           \<and> find_socrata_dataset_by_id env k' = Inl err
           \<and> leftover_loop env idx processed (k # ks) = Inl err"
          by (simp add: and_then_def)
        then show ?thesis by blast
      qed
    qed
  qed
qed

lemma add_leftovers_records:
  assumes "list_all (\<lambda>r. has_key r ''soc_name'') lo"
  shows "\<exists>rd. add_leftovers lo results = Inr rd
     \<and> mset (all_records rd) = mset (all_records results) + mset lo
     \<and> (wf_results results \<longrightarrow> wf_results rd)"
  using assms
proof (induction lo arbitrary: results)
  case Nil
  then show ?case by simp
next
  case (Cons r lo)
  then obtain a where a: "map_of r ''soc_name'' = Some a" by (auto simp: has_key_def)
  define results1 where "results1 = AList.update a (idx_list results a @ [r]) results"
  from a have av: "append_values r results = Inr results1"
    by (simp add: append_values_def getitem_def and_then_def append_under_eq results1_def)
  from Cons.prems have "list_all (\<lambda>r. has_key r ''soc_name'') lo" by simp
  from Cons.IH [OF this, of results1] obtain rd where
    "add_leftovers lo results1 = Inr rd"
    "mset (all_records rd) = mset (all_records results1) + mset lo"
    "wf_results results1 \<longrightarrow> wf_results rd" by blast
  with av wf_results_update [OF _ a, of results] show ?case
    by (auto simp: and_then_def results1_def mset_all_records_update)
qed

lemma good_records_have_name:
  "list_all2 (good_record idx) ks lo \<Longrightarrow> list_all (\<lambda>r. has_key r ''soc_name'') lo"
  by (induction rule: list_all2_induct)
     (auto simp: good_record_def has_fields_def output_fields_def)

lemma good_records_fields:
  "list_all2 (good_record idx) ks rs \<Longrightarrow> r \<in> set rs \<Longrightarrow> \<exists>k. good_record idx k r"
  by (induction rule: list_all2_induct) auto

lemma good_records_count:
  "list_all2 (good_record idx) ks rs \<Longrightarrow> length (with_id i rs) = count_list ks i"
  by (induction rule: list_all2_induct) (auto simp: with_id_def good_record_def)

lemma wf_index_update:
  assumes "wf_index d" and "snd e = [(''download_filename'', line), (''download_ts'', t)]"
  shows "wf_index (AList.update (fst e) (idx_list d (fst e) @ [snd e]) d)"
proof -
  have "snd kv \<noteq> [] \<and> (\<forall>x\<in>set (snd kv). has_key x ''download_filename'' \<and> has_key x ''download_ts'')"
    if kv: "kv \<in> set (AList.update (fst e) (idx_list d (fst e) @ [snd e]) d)" for kv
    using set_update_cases [OF kv]
  proof
    assume new: "kv = (fst e, idx_list d (fst e) @ [snd e])"
    have "has_key x ''download_filename'' \<and> has_key x ''download_ts''"
      if "x \<in> set (idx_list d (fst e))" for x
    proof -
      from idx_list_set [OF that] obtain l where "(fst e, l) \<in> set d" "x \<in> set l" by blast
      with assms(1) show ?thesis by (auto simp: wf_index_def list_all_iff)
    qed
    with new assms(2) show ?thesis by (auto simp: has_key_def)
  next
    assume "kv \<in> set d"
    with assms(1) show ?thesis by (auto simp: wf_index_def list_all_iff)
  qed
  with assms(1) show ?thesis by (simp add: wf_index_def distinct_update list_all_iff)
qed

lemma build_wf_index:
  assumes "build_download_file_dict f = Inr (idx, evs)"
  shows "wf_index idx"
  using assms unfolding build_download_file_dict_def
proof (rule build_loop_invariant)
  show "wf_index []" by (simp add: wf_index_def)
next
  fix line d e
  assume "wf_index d" "download_record line = Inr (Some e)"
  with download_record_SomeD [of line e] wf_index_update [of d e line]
  show "wf_index (AList.update (fst e) (idx_list d (fst e) @ [snd e]) d)" by blast
qed






section \<open>The whole run\<close>

lemma main_loop_total:
  assumes "wf_index idx" and "list_all (\<lambda>l. \<not> isl (get_next_homepage_url_line env l)) (read_lines f)"
    and "\<forall>k. \<exists>reply. find_socrata_dataset_by_id env k = Inr reply"
  shows "\<exists>st'. main_loop env idx f st = Inr st'"
  using assms(2)
proof (induction f arbitrary: st)
  case Nil
  then show ?case by simp
next
  case (Cons l f)
  show ?case
  proof (cases "rstrip l = []")
    case True
    then show ?thesis by (simp add: get_next_homepage_url_line_def and_then_def)
  next
    case False
    with Cons.prems obtain r e where gn: "get_next_homepage_url_line env l = Inr (r, e)"
      and rest: "list_all (\<lambda>l. \<not> isl (get_next_homepage_url_line env l)) (read_lines f)"
      by (cases "get_next_homepage_url_line env l") (auto simp: read_lines_def)
    from gn False obtain p where r: "r = Some p" by (cases r) (auto dest: get_next_None)
    show ?thesis
    proof (cases "fst p")
      case None
      with gn r Cons.IH [OF rest, of "skipped st e p"] show ?thesis by (simp add: and_then_def)
    next
      case (Some j)
      show ?thesis
      proof (cases "j = []")
        case True
        with Some gn r Cons.IH [OF rest, of "skipped st e p"] show ?thesis by (simp add: and_then_def)
      next
        case False
        from assms(3) obtain reply where "find_socrata_dataset_by_id env j = Inr reply" by blast
        from main_step_record [OF assms(1) this, of "snd p" "st\<lparr>events := events st @ e @ looking_at (Some p)\<rparr>"]
        obtain st1 where "main_step env idx j (snd p) (st\<lparr>events := events st @ e @ looking_at (Some p)\<rparr>) = Inr st1"
          by blast
        with Some gn r False Cons.IH [OF rest, of st1] show ?thesis by (simp add: and_then_def)
      qed
    qed
  qed
qed

lemma assemble_records:
  assumes "wf_index idx" and "main_loop env idx hp (initial e0) = Inr st"
  shows "(\<exists>rs lo e rd.
       process_leftover_download_files env idx (download_files_processed st) = Inr (lo, e)
       \<and> add_leftovers lo (results_dict st) = Inr rd
       \<and> assemble env idx hp e0 = Inr rd
       \<and> list_all2 (good_record idx) (homepage_ids env hp) rs
       \<and> list_all2 (good_record idx)
            (filter (\<lambda>k. k \<notin> set (homepage_ids env hp)) (map fst idx)) lo
       \<and> list_all (\<lambda>r. field r ''homepage'' = field r ''soc_homepage'') lo
       \<and> mset (all_records (results_dict st)) = mset rs
       \<and> mset (all_records rd) = mset rs + mset lo
       \<and> wf_results rd)
     \<or> (\<exists>k err. has_key idx k \<and> k \<notin> set (homepage_ids env hp)
           \<and> find_socrata_dataset_by_id env k = Inl err
           \<and> process_leftover_download_files env idx (download_files_processed st) = Inl err
           \<and> assemble env idx hp e0 = Inl err)"
proof -
  from main_loop_records [OF assms(2,1)] obtain rs where
    rs: "list_all2 (good_record idx) (homepage_ids env hp) rs"
    and ms: "mset (all_records (results_dict st)) = mset rs"
    and wf: "wf_results (results_dict st)"
    and pr: "\<forall>k. has_key (download_files_processed st) k \<longleftrightarrow>
               k \<in> set (homepage_ids env hp) \<and> has_key idx k"
    by (auto simp: initial_def all_records_def wf_results_def stored_under_name_def has_key_def)
  from leftover_loop_records [OF assms(1), of "map fst idx" env "download_files_processed st"]
  have "(\<exists>lo e. leftover_loop env idx (download_files_processed st) (map fst idx) = Inr (lo, e)
       \<and> list_all2 (good_record idx)
            (filter (\<lambda>k. \<not> has_key (download_files_processed st) k) (map fst idx)) lo
       \<and> list_all (\<lambda>r. field r ''homepage'' = field r ''soc_homepage'') lo)
     \<or> (\<exists>k err. k \<in> set (map fst idx) \<and> \<not> has_key (download_files_processed st) k
           \<and> find_socrata_dataset_by_id env k = Inl err
           \<and> leftover_loop env idx (download_files_processed st) (map fst idx) = Inl err)"
    by simp
  then show ?thesis
  proof
    assume "\<exists>lo e. leftover_loop env idx (download_files_processed st) (map fst idx) = Inr (lo, e)
       \<and> list_all2 (good_record idx)
            (filter (\<lambda>k. \<not> has_key (download_files_processed st) k) (map fst idx)) lo
       \<and> list_all (\<lambda>r. field r ''homepage'' = field r ''soc_homepage'') lo"
    then obtain lo e where
      ll: "leftover_loop env idx (download_files_processed st) (map fst idx) = Inr (lo, e)"
      and lo: "list_all2 (good_record idx)
          (filter (\<lambda>k. \<not> has_key (download_files_processed st) k) (map fst idx)) lo"
      and hp: "list_all (\<lambda>r. field r ''homepage'' = field r ''soc_homepage'') lo" by blast
    have "filter (\<lambda>k. \<not> has_key (download_files_processed st) k) (map fst idx) =
        filter (\<lambda>k. k \<notin> set (homepage_ids env hp)) (map fst idx)"
    proof (rule filter_cong)
      fix k assume "k \<in> set (map fst idx)"
      then have "has_key idx k" by (simp add: has_key_fst)
      with pr show "(\<not> has_key (download_files_processed st) k) = (k \<notin> set (homepage_ids env hp))"
        by simp
    qed simp
    with lo have lo': "list_all2 (good_record idx)
        (filter (\<lambda>k. k \<notin> set (homepage_ids env hp)) (map fst idx)) lo" by simp
    from add_leftovers_records [OF good_records_have_name [OF lo'], of "results_dict st"] obtain rd where
      al: "add_leftovers lo (results_dict st) = Inr rd"
      and mrd: "mset (all_records rd) = mset (all_records (results_dict st)) + mset lo"
      and wrd: "wf_results (results_dict st) \<longrightarrow> wf_results rd" by blast
    from ll al assms(2) have "assemble env idx hp e0 = Inr rd"
      by (simp add: assemble_def and_then_def process_leftover_download_files_def)
    with ll al rs lo' hp ms mrd wrd wf show ?thesis
      by (auto simp: process_leftover_download_files_def)
  next
    assume "\<exists>k err. k \<in> set (map fst idx) \<and> \<not> has_key (download_files_processed st) k
           \<and> find_socrata_dataset_by_id env k = Inl err
           \<and> leftover_loop env idx (download_files_processed st) (map fst idx) = Inl err"
    then obtain k err where k: "k \<in> set (map fst idx)"
      and np: "\<not> has_key (download_files_processed st) k"
      and f: "find_socrata_dataset_by_id env k = Inl err"
      and ll: "leftover_loop env idx (download_files_processed st) (map fst idx) = Inl err"
      by blast
    from k have hk: "has_key idx k" by (simp add: has_key_fst)
    with np pr have nh: "k \<notin> set (homepage_ids env hp)" by simp
    from ll assms(2) have "assemble env idx hp e0 = Inl err"
      by (simp add: assemble_def and_then_def process_leftover_download_files_def)
    with hk nh f ll show ?thesis
      by (auto simp: process_leftover_download_files_def)
  qed
qed

lemma assemble_records_Inr:
  assumes "wf_index idx" and "main_loop env idx hp (initial e0) = Inr st"
    and "process_leftover_download_files env idx (download_files_processed st) = Inr (lo, e)"
  shows "\<exists>rs rd.
       add_leftovers lo (results_dict st) = Inr rd
       \<and> assemble env idx hp e0 = Inr rd
       \<and> list_all2 (good_record idx) (homepage_ids env hp) rs
       \<and> list_all2 (good_record idx)
            (filter (\<lambda>k. k \<notin> set (homepage_ids env hp)) (map fst idx)) lo
       \<and> list_all (\<lambda>r. field r ''homepage'' = field r ''soc_homepage'') lo
       \<and> mset (all_records (results_dict st)) = mset rs
       \<and> mset (all_records rd) = mset rs + mset lo
       \<and> wf_results rd"
  using assemble_records [OF assms(1,2)] assms(3) by auto

lemma leftover_pass_total:
  assumes "wf_index idx" and "main_loop env idx hp (initial e0) = Inr st"
    and "\<forall>k. \<exists>reply. find_socrata_dataset_by_id env k = Inr reply"
  shows "\<exists>lo e. process_leftover_download_files env idx (download_files_processed st) = Inr (lo, e)"
proof -
  from assms(3) have "find_socrata_dataset_by_id env k \<noteq> Inl err" for k err
    by (metis Inl_Inr_False)
  with assemble_records [OF assms(1,2)] show ?thesis by blast
qed

lemma demo_catalog_returns: "\<forall>k. \<exists>reply. find_socrata_dataset_by_id demo_env k = Inr reply"
  by (simp add: demo_env_def)

lemma demo_match1:
  "re_search download_pattern ''abcd-1234_2.5_first.csv'' =
     Some [(''timestamp'', ''2.5''), (''socrata_id'', ''abcd-1234'')]"
  by (simp add: rx_defs upt_rec)

lemma demo_match2:
  "re_search download_pattern ''zzzz-9999_2.5_x.csv'' =
     Some [(''timestamp'', ''2.5''), (''socrata_id'', ''zzzz-9999'')]"
  by (simp add: rx_defs upt_rec)

lemma demo_match3:
  "re_search download_pattern ''abcd-1234_1736710755.963349_second.csv'' =
     Some [(''timestamp'', ''1736710755.963349''), (''socrata_id'', ''abcd-1234'')]"
  by (simp add: rx_defs upt_rec)

lemma demo_match4:
  "re_search download_pattern ''zzzz-9999_1736710755.963349_y.csv'' =
     Some [(''timestamp'', ''1736710755.963349''), (''socrata_id'', ''zzzz-9999'')]"
  by (simp add: rx_defs upt_rec)

lemma demo_build: "build_download_file_dict demo_downloads = Inr (demo_index, demo_log)"
  by (simp add: build_download_file_dict_def demo_downloads_def demo_index_def demo_log_def
      rstrip_def is_space_def download_line_def download_record_def demo_match1 demo_match2
      demo_match3 demo_match4 group_def ab_ts births_ts and_then_def append_under_def has_key_def getitem_def)


lemma demo_next1:
  "get_next_homepage_url_line demo_env
     ''https://data.cdc.gov/sitemap.xml,https://data.cdc.gov/d/abcd-1234'' =
   Inr (Some (Some ''abcd-1234'', ''https://data.cdc.gov/d/abcd-1234''), [])"
  by (simp add: get_next_homepage_url_line_def rstrip_def is_space_def demo_env_def and_then_def
      is_socrata_id_def rx_defs)

lemma demo_next2:
  "get_next_homepage_url_line demo_env
     ''https://data.cdc.gov/sitemap2.xml,https://data.cdc.gov/d/abcd-1234'' =
   Inr (Some (Some ''abcd-1234'', ''https://data.cdc.gov/d/abcd-1234''), [])"
  by (simp add: get_next_homepage_url_line_def rstrip_def is_space_def demo_env_def and_then_def
      is_socrata_id_def rx_defs)

lemma demo_read_lines: "read_lines demo_homepages = demo_homepages"
  by (simp add: read_lines_def demo_homepages_def rstrip_def is_space_def)

lemma demo_lines_ok:
  "list_all (\<lambda>l. \<not> isl (get_next_homepage_url_line demo_env l)) (read_lines demo_homepages)"
  by (simp add: demo_read_lines) (simp add: demo_homepages_def demo_next1 demo_next2)

lemma demo_ids: "homepage_ids demo_env demo_homepages = [''abcd-1234'', ''abcd-1234'']"
  by (simp add: homepage_ids_def demo_read_lines) 
     (simp add: demo_homepages_def entry_id_def demo_next1 demo_next2)

lemma with_id_mset: "mset xs = mset ys \<Longrightarrow> length (with_id i xs) = length (with_id i ys)"
  unfolding with_id_def by (metis mset_filter size_mset)

lemma with_id_append: "with_id i (xs @ ys) = with_id i xs @ with_id i ys"
  by (simp add: with_id_def)

lemma count_list_filter_distinct:
  "distinct xs \<Longrightarrow> count_list (filter P xs) i = (if i \<in> set xs \<and> P i then 1 else 0)"
  by (induction xs) auto

lemma demo_run:
  "\<exists>st. main_loop demo_env demo_index demo_homepages (initial demo_log) = Inr st"
  by (rule main_loop_total [OF build_wf_index [OF demo_build] demo_lines_ok demo_catalog_returns])

lemma demo_leftover:
  assumes "main_loop demo_env demo_index demo_homepages (initial demo_log) = Inr st"
  shows "\<exists>lo e. process_leftover_download_files demo_env demo_index (download_files_processed st)
     = Inr (lo, e)"
  by (rule leftover_pass_total [OF build_wf_index [OF demo_build] assms demo_catalog_returns])

text \<open>
  C1, amended.  On a run that returns, for every identifier of the download index: the main
  pass appends one record of the identifier for each homepage entry that carries it and
  marks the identifier consumed exactly when there is such an entry, the leftover pass
  appends exactly one if no homepage entry carries it and none otherwise.
  So the identifier is covered by the main pass or by the leftover pass, never by both and
  never by neither, and it has exactly one record when at most one homepage entry carries
  it.
\<close>

theorem identifier_record_counts:
  assumes "build_download_file_dict f = Inr (idx, e0)"
    and "main_loop env idx hp (initial e0) = Inr st"
    and "process_leftover_download_files env idx (download_files_processed st) = Inr (lo, e)"
    and "add_leftovers lo (results_dict st) = Inr rd"
    and "has_key idx i"
  shows "length (with_id i (all_records (results_dict st))) = count_list (homepage_ids env hp) i
     \<and> has_key (download_files_processed st) i = (i \<in> set (homepage_ids env hp))
     \<and> length (with_id i lo) = (if i \<in> set (homepage_ids env hp) then 0 else 1)
     \<and> length (with_id i (all_records rd)) =
         (if i \<in> set (homepage_ids env hp) then count_list (homepage_ids env hp) i else 1)"
proof -
  have wf: "wf_index idx" by (rule build_wf_index [OF assms(1)])
  from assemble_records_Inr [OF wf assms(2,3)] assms(4) obtain rs where
    rs: "list_all2 (good_record idx) (homepage_ids env hp) rs"
    and lo: "list_all2 (good_record idx)
          (filter (\<lambda>k. k \<notin> set (homepage_ids env hp)) (map fst idx)) lo"
    and ms: "mset (all_records (results_dict st)) = mset rs"
    and mrd: "mset (all_records rd) = mset rs + mset lo"
    by auto
  from wf have d: "distinct (map fst idx)" by (simp add: wf_index_def)
  from assms(5) have k: "i \<in> set (map fst idx)" by (simp add: has_key_fst)
  have 1: "length (with_id i (all_records (results_dict st))) = count_list (homepage_ids env hp) i"
    using with_id_mset [OF ms] good_records_count [OF rs] by simp
  have 2: "length (with_id i lo) = (if i \<in> set (homepage_ids env hp) then 0 else 1)"
    using good_records_count [OF lo, of i] count_list_filter_distinct [OF d] k by simp
  from mrd have "mset (all_records rd) = mset (rs @ lo)" by simp
  from with_id_mset [OF this] have "length (with_id i (all_records rd)) =
      length (with_id i rs) + length (with_id i lo)" by (simp add: with_id_append)
  with 2 good_records_count [OF rs, of i] have 3: "length (with_id i (all_records rd)) =
         (if i \<in> set (homepage_ids env hp) then count_list (homepage_ids env hp) i else 1)"
    by (simp add: count_list_0_iff)
  from main_loop_records [OF assms(2) wf] assms(5)
  have 4: "has_key (download_files_processed st) i = (i \<in> set (homepage_ids env hp))"
    by (auto simp: initial_def has_key_def)
  from 1 2 3 4 show ?thesis by blast
qed

text \<open>
  C1, as stated, fails: with the download list and the homepage list of the concrete run,
  where two homepage entries carry \<^verbatim>\<open>abcd-1234\<close>, the run returns and its results hold two
  records of \<^verbatim>\<open>abcd-1234\<close>, an identifier of the download index.
\<close>

theorem identifier_twice_counterexample:
  "build_download_file_dict demo_downloads = Inr (demo_index, demo_log)
   \<and> has_key demo_index ''abcd-1234''
   \<and> count_in ''abcd-1234'' (assemble demo_env demo_index demo_homepages demo_log) = Some 2"
proof -
  have wf: "wf_index demo_index" by (rule build_wf_index [OF demo_build])
  from demo_run obtain st where
    st: "main_loop demo_env demo_index demo_homepages (initial demo_log) = Inr st" by blast
  from demo_leftover [OF st] obtain lo e where
    pl: "process_leftover_download_files demo_env demo_index (download_files_processed st)
      = Inr (lo, e)" by blast
  from assemble_records_Inr [OF wf st pl] obtain rs rd where
    a: "assemble demo_env demo_index demo_homepages demo_log = Inr rd"
    and rs: "list_all2 (good_record demo_index) (homepage_ids demo_env demo_homepages) rs"
    and lo: "list_all2 (good_record demo_index)
          (filter (\<lambda>k. k \<notin> set (homepage_ids demo_env demo_homepages)) (map fst demo_index)) lo"
    and mrd: "mset (all_records rd) = mset rs + mset lo" by blast
  from mrd have "mset (all_records rd) = mset (rs @ lo)" by simp
  from with_id_mset [OF this] have "length (with_id ''abcd-1234'' (all_records rd)) =
      length (with_id ''abcd-1234'' rs) + length (with_id ''abcd-1234'' lo)"
    by (simp add: with_id_append)
  also have "length (with_id ''abcd-1234'' rs) = 2"
    using good_records_count [OF rs, of "''abcd-1234''"] by (simp add: demo_ids)
  also have "length (with_id ''abcd-1234'' lo) = 0"
    using good_records_count [OF lo, of "''abcd-1234''"] by (simp add: demo_ids demo_index_def)
  finally have "length (with_id ''abcd-1234'' (all_records rd)) = 2" by simp
  with a demo_build show ?thesis by (simp add: count_in_def has_key_def demo_index_def)
qed

theorem identifier_record_counts_witness:
  "\<exists>st lo e rd.
     main_loop demo_env demo_index demo_homepages (initial demo_log) = Inr st
     \<and> process_leftover_download_files demo_env demo_index (download_files_processed st) = Inr (lo, e)
     \<and> add_leftovers lo (results_dict st) = Inr rd
     \<and> length (with_id ''abcd-1234'' (all_records (results_dict st))) = 2
     \<and> has_key (download_files_processed st) ''abcd-1234''
     \<and> \<not> has_key (download_files_processed st) ''zzzz-9999''
     \<and> length (with_id ''abcd-1234'' lo) = 0
     \<and> length (with_id ''abcd-1234'' (all_records rd)) = 2
     \<and> length (with_id ''zzzz-9999'' (all_records (results_dict st))) = 0
     \<and> length (with_id ''zzzz-9999'' lo) = 1
     \<and> length (with_id ''zzzz-9999'' (all_records rd)) = 1"
proof -
  have wf: "wf_index demo_index" by (rule build_wf_index [OF demo_build])
  from demo_run obtain st where
    st: "main_loop demo_env demo_index demo_homepages (initial demo_log) = Inr st" by blast
  from demo_leftover [OF st] obtain lo e where
    lo: "process_leftover_download_files demo_env demo_index (download_files_processed st) = Inr (lo, e)"
    by blast
  from assemble_records_Inr [OF wf st lo] obtain rd where
    rd: "add_leftovers lo (results_dict st) = Inr rd" by blast
  have a: "has_key demo_index ''abcd-1234''" and z: "has_key demo_index ''zzzz-9999''"
    by (simp_all add: has_key_def demo_index_def)
  from identifier_record_counts [OF demo_build st lo rd a]
    identifier_record_counts [OF demo_build st lo rd z] st lo rd
  show ?thesis by (simp add: demo_ids)
qed

lemma named_records_set:
  "p \<in> set (named_records rd) \<Longrightarrow> \<exists>l. (fst p, l) \<in> set rd \<and> snd p \<in> set l"
  by (auto simp: named_records_def)



text \<open>
  C10.  When the builder returns and the main pass returns, every list of the index is
  non-empty and every record the main pass appended has the eight fields.  The leftover pass
  fails on no read of a key: it returns, or it stops on what the call of the catalog raised
  for an identifier of the index that no homepage entry carries.  When it returns, the merge
  and the report return too; every record of the leftover pass and of the results has the
  eight fields; every record is stored under its own \<^verbatim>\<open>soc_name\<close>; and the rows of the
  report are the rows of the stored records, each with the \<^verbatim>\<open>soc_name\<close> of its record in
  the name column.
\<close>

theorem assembled_records_complete:
  assumes "build_download_file_dict f = Inr (idx, e0)"
    and "main_loop env idx hp (initial e0) = Inr st"
  shows "list_all (\<lambda>kv. snd kv \<noteq> []) idx
     \<and> list_all has_fields (all_records (results_dict st))
     \<and> ((\<exists>lo e rd ps.
           process_leftover_download_files env idx (download_files_processed st) = Inr (lo, e)
           \<and> add_leftovers lo (results_dict st) = Inr rd
           \<and> list_all has_fields lo
           \<and> list_all has_fields (all_records rd)
           \<and> stored_under_name rd
           \<and> report rd = Inr (map (\<lambda>hl. [hl]) header_lines @ [header_row] @ map row_of ps)
           \<and> mset ps = mset (named_records rd)
           \<and> list_all (\<lambda>p. map_of (snd p) ''soc_name'' = Some (fst p)) ps)
        \<or> (\<exists>k err. has_key idx k \<and> k \<notin> set (homepage_ids env hp)
              \<and> find_socrata_dataset_by_id env k = Inl err
              \<and> process_leftover_download_files env idx (download_files_processed st) = Inl err))"
proof -
  have wf: "wf_index idx" by (rule build_wf_index [OF assms(1)])
  from wf have ne: "list_all (\<lambda>kv. snd kv \<noteq> []) idx" by (auto simp: wf_index_def list_all_iff)
  from main_loop_records [OF assms(2) wf] obtain rs0 where
    rs0: "list_all2 (good_record idx) (homepage_ids env hp) rs0"
    and ms0: "mset (all_records (results_dict st)) = mset rs0"
    by (auto simp: initial_def all_records_def)
  from ms0 have "set (all_records (results_dict st)) = set rs0" by (metis set_mset_mset)
  with good_records_fields [OF rs0] have f1: "list_all has_fields (all_records (results_dict st))"
    by (auto simp: list_all_iff good_record_def)
  from assemble_records [OF wf assms(2)]
  have "(\<exists>lo e rd ps.
           process_leftover_download_files env idx (download_files_processed st) = Inr (lo, e)
           \<and> add_leftovers lo (results_dict st) = Inr rd
           \<and> list_all has_fields lo
           \<and> list_all has_fields (all_records rd)
           \<and> stored_under_name rd
           \<and> report rd = Inr (map (\<lambda>hl. [hl]) header_lines @ [header_row] @ map row_of ps)
           \<and> mset ps = mset (named_records rd)
           \<and> list_all (\<lambda>p. map_of (snd p) ''soc_name'' = Some (fst p)) ps)
        \<or> (\<exists>k err. has_key idx k \<and> k \<notin> set (homepage_ids env hp)
              \<and> find_socrata_dataset_by_id env k = Inl err
              \<and> process_leftover_download_files env idx (download_files_processed st) = Inl err)"
  proof
    assume "\<exists>rs lo e rd.
       process_leftover_download_files env idx (download_files_processed st) = Inr (lo, e)
       \<and> add_leftovers lo (results_dict st) = Inr rd
       \<and> assemble env idx hp e0 = Inr rd
       \<and> list_all2 (good_record idx) (homepage_ids env hp) rs
       \<and> list_all2 (good_record idx)
            (filter (\<lambda>k. k \<notin> set (homepage_ids env hp)) (map fst idx)) lo
       \<and> list_all (\<lambda>r. field r ''homepage'' = field r ''soc_homepage'') lo
       \<and> mset (all_records (results_dict st)) = mset rs
       \<and> mset (all_records rd) = mset rs + mset lo
       \<and> wf_results rd"
    then obtain rs lo e rd where
      pl: "process_leftover_download_files env idx (download_files_processed st) = Inr (lo, e)"
      and al: "add_leftovers lo (results_dict st) = Inr rd"
      and rs: "list_all2 (good_record idx) (homepage_ids env hp) rs"
      and lo: "list_all2 (good_record idx)
            (filter (\<lambda>k. k \<notin> set (homepage_ids env hp)) (map fst idx)) lo"
      and mrd: "mset (all_records rd) = mset rs + mset lo"
      and wrd: "wf_results rd" by blast
    have grs: "has_fields r" if "r \<in> set rs" for r
      using good_records_fields [OF rs that] by (auto simp: good_record_def)
    have glo: "has_fields r" if "r \<in> set lo" for r
      using good_records_fields [OF lo that] by (auto simp: good_record_def)
    from mrd have s2: "set (all_records rd) = set rs \<union> set lo"
      by (metis mset_append set_append set_mset_mset)
    have f2: "list_all has_fields lo" and f3: "list_all has_fields (all_records rd)"
      using grs glo s2 by (auto simp: list_all_iff)
    from f3 have "data_rows rd = Inr (map row_of (sorted_rows rd))"
      by (intro data_rows_eq) (simp add: list_all_iff)
    then have rep: "report rd =
        Inr (map (\<lambda>hl. [hl]) header_lines @ [header_row] @ map row_of (sorted_rows rd))"
      by (simp add: report_def and_then_def)
    from wrd have d: "distinct (map fst rd)" and su: "stored_under_name rd"
      by (simp_all add: wf_results_def)
    have m: "mset (sorted_rows rd) = mset (named_records rd)" by (rule mset_sorted_rows [OF d])
    have "map_of (snd p) ''soc_name'' = Some (fst p)" if "p \<in> set (sorted_rows rd)" for p
    proof -
      from that m have "p \<in> set (named_records rd)" by (metis set_mset_mset)
      from named_records_set [OF this] su show ?thesis
        by (auto simp: stored_under_name_def list_all_iff)
    qed
    then have n: "list_all (\<lambda>p. map_of (snd p) ''soc_name'' = Some (fst p)) (sorted_rows rd)"
      by (simp add: list_all_iff)
    from pl al f2 f3 su rep m n show ?thesis by blast
  next
    assume "\<exists>k err. has_key idx k \<and> k \<notin> set (homepage_ids env hp)
           \<and> find_socrata_dataset_by_id env k = Inl err
           \<and> process_leftover_download_files env idx (download_files_processed st) = Inl err
           \<and> assemble env idx hp e0 = Inl err"
    then show ?thesis by blast
  qed
  with ne f1 show ?thesis by blast
qed

theorem assembled_records_complete_witness:
  "\<exists>st lo e rd ps.
     main_loop demo_env demo_index demo_homepages (initial demo_log) = Inr st
     \<and> process_leftover_download_files demo_env demo_index (download_files_processed st) = Inr (lo, e)
     \<and> add_leftovers lo (results_dict st) = Inr rd
     \<and> list_all (\<lambda>kv. snd kv \<noteq> []) demo_index
     \<and> list_all has_fields (all_records (results_dict st))
     \<and> list_all has_fields lo
     \<and> list_all has_fields (all_records rd)
     \<and> stored_under_name rd
     \<and> report rd = Inr (map (\<lambda>hl. [hl]) header_lines @ [header_row] @ map row_of ps)
     \<and> mset ps = mset (named_records rd)
     \<and> list_all (\<lambda>p. map_of (snd p) ''soc_name'' = Some (fst p)) ps"
proof -
  from demo_run obtain st where
    st: "main_loop demo_env demo_index demo_homepages (initial demo_log) = Inr st" by blast
  have "find_socrata_dataset_by_id demo_env k \<noteq> Inl err" for k err
    by (simp add: demo_env_def)
  with assembled_records_complete [OF demo_build st] st show ?thesis by blast
qed
end
